theory Spec2Isabelle
  imports Complex_Main
begin

section \<open>Values, errors and the drawing surface\<close>

text \<open>
  The program is the Python class \<^verbatim>\<open>rhreports\<close> (src/rhreports/rhreports.py), a
  layout helper over matplotlib. Python floats are \<^typ>\<open>real\<close> numbers: the
  arithmetic that only produces coordinates is exact, and the comparison of the bounds
  assertion is on the rounded sum. A Python string is a
  \<^typ>\<open>string\<close> whose length is the number of its characters.
\<close>

text \<open>Python values that occur as dictionary values, text contents and keyword arguments.\<close>

datatype pyval =
    PyNone
  | PyStr string
  | PyInt int
  | PyFloat real
  | PyTuple "pyval list"

text \<open>The exceptions a call can end with.\<close>

datatype error =
    AssertionError
  | ValueError
  | KeyError string
  | TypeError
  | ZeroDivisionError
  | UnboundLocalError string
  | LoadError string

datatype 'a result = Ok 'a | Raise error

text \<open>An image as \<^verbatim>\<open>plt.imread\<close> returns it: \<^verbatim>\<open>im.shape[0]\<close> rows, \<^verbatim>\<open>im.shape[1]\<close> columns.\<close>

record image =
  rows :: nat
  cols :: nat

type_synonym kwargs = "(string \<times> pyval) list"

text \<open>
  What an axes holds after drawing calls, in call order:
  \<^verbatim>\<open>ax.text(x, y, s, **kw)\<close>, \<^verbatim>\<open>ax.axhline(y=, xmin=, xmax=, **kw)\<close> and
  \<^verbatim>\<open>ax.imshow(im, **kw)\<close>.
\<close>

datatype artist =
    Text real real pyval kwargs
  | HLine real real real kwargs
  | AxesImage image kwargs

record axes =
  position :: "real list option"
  artists :: "artist list"
  facecolor :: string
  axis_on :: bool

text \<open>
  A figure: its size in inches, the axes \<^verbatim>\<open>self.ax\<close> made by \<^verbatim>\<open>plt.subplots\<close>, and
  the axes added later by \<^verbatim>\<open>fig.add_axes\<close>, in order.
\<close>

record figure =
  figsize :: "real \<times> real"
  ax :: axes
  added :: "axes list"

text \<open>
  The part of the interpreter state that the drawing methods of one instance touch:
  the instance's own figure (\<^verbatim>\<open>self.fig\<close> with \<^verbatim>\<open>self.ax\<close>) and standard output.
\<close>

record env =
  fig :: figure
  stdout :: "string list"

text \<open>\<^verbatim>\<open>self.margin = [0.075, 0.075, 0.05, 0.075]\<close>: top, right, bottom, left. It is
  assigned in \<^verbatim>\<open>__init__\<close> and only read afterwards.\<close>

definition margin :: "real list" where
  "margin = [0.075, 0.075, 0.05, 0.075]"

definition new_axes :: "real list option \<Rightarrow> axes" where
  "new_axes r = \<lparr>position = r, artists = [], facecolor = ''white'', axis_on = True\<rparr>"

text \<open>\<^verbatim>\<open>plt.subplots(figsize=(8.27,11.69), ...)\<close>, then \<^verbatim>\<open>set_facecolor('white')\<close> and
  \<^verbatim>\<open>axis('off')\<close>.\<close>

definition init_figure :: figure where
  "init_figure =
     \<lparr>figsize = (8.27, 11.69),
      ax = (new_axes None)\<lparr>facecolor := ''white'', axis_on := False\<rparr>,
      added = []\<rparr>"

text \<open>\<^verbatim>\<open>self.ax.text(...)\<close> and \<^verbatim>\<open>self.ax.axhline(...)\<close>: one more artist on the base axes.\<close>

definition draw :: "artist \<Rightarrow> env \<Rightarrow> env" where
  "draw a s = s\<lparr>fig := (fig s)\<lparr>ax := (ax (fig s))\<lparr>artists := artists (ax (fig s)) @ [a]\<rparr>\<rparr>\<rparr>"

text \<open>\<^verbatim>\<open>self.fig.add_axes(rect)\<close>: one more axes on the figure. What matplotlib itself
  checks about its arguments is outside this program and is not modelled.\<close>

definition add_axes :: "axes \<Rightarrow> env \<Rightarrow> env" where
  "add_axes a s = s\<lparr>fig := (fig s)\<lparr>added := added (fig s) @ [a]\<rparr>\<rparr>"

section \<open>Double-precision rounding\<close>

text \<open>
  The bounds assertion \<^verbatim>\<open>assert x + width <= 1\<close> compares the sum as Python computes
  it: the exact sum rounded to the nearest double, ties to the even significand. It is
  the one place of the program where a rounded value decides a branch, so it is the one
  place where the rounding is modelled.
\<close>

text \<open>Rounding a real to the nearest integer, a tie to the even one.\<close>

definition round_half_even :: "real \<Rightarrow> int" where
  "round_half_even r =
     (let f = \<lfloor>r\<rfloor>
      in if r - real_of_int f < 1 / 2 then f
         else if r - real_of_int f > 1 / 2 then f + 1
         else if even f then f else f + 1)"

text \<open>
  The binary exponent \<open>e\<close> of a double near \<open>r\<close>: the least \<open>e\<close> from -1022 (where the
  subnormal numbers begin) to 1023 with \<open>|r| < 2^(e+1)\<close>; none when \<open>r\<close> is beyond the
  largest binade.
\<close>

definition double_exponent :: "real \<Rightarrow> int option" where
  "double_exponent r = find (\<lambda>e. \<bar>r\<bar> < 2 powi (e + 1)) [-1022..1023]"

text \<open>
  The nearest double: a multiple of \<open>2^(e-52)\<close>, 53 significant bits. Beyond the largest
  binade Python's result is infinite; the model keeps \<open>r\<close> there, which compares with 1
  as the infinity of its sign does.
\<close>

definition fl :: "real \<Rightarrow> real" where
  "fl r =
     (case double_exponent r of
        None \<Rightarrow> r
      | Some e \<Rightarrow> real_of_int (round_half_even (r / 2 powi (e - 52))) * 2 powi (e - 52))"

text \<open>\<^verbatim>\<open>a + b\<close> on two floats.\<close>

definition fadd :: "real \<Rightarrow> real \<Rightarrow> real" where
  "fadd a b = fl (a + b)"

section \<open>set_title\<close>

text \<open>
  \<open>text_width\<close> stands for the renderer's measurement pass
  (\<^verbatim>\<open>get_window_extent(renderer=r).transformed(transData.inverted()).width\<close>) of a
  text artist.
\<close>

definition set_title ::
  "(artist \<Rightarrow> real) \<Rightarrow> real \<Rightarrow> string \<Rightarrow> string option \<Rightarrow> env \<Rightarrow> unit result \<times> env" where
  "set_title text_width ypos title subtitle s =
     (let xpos = margin ! 3;
          titleax = Text xpos ypos (PyStr title) [(''weight'', PyStr ''bold''), (''fontsize'', PyInt 24)];
          s1 = draw titleax s
      in case subtitle of
           None \<Rightarrow> (Ok (), s1)
         | Some sub \<Rightarrow>
             (let xpos' = xpos + (text_width titleax - 0.005 * real (length title))
              in (Ok (), draw (Text xpos' ypos (PyStr sub) [(''fontsize'', PyInt 16)]) s1)))"

section \<open>create_axes\<close>

text \<open>
  \<open>pos\<close> is unpacked into four names. The \<^verbatim>\<open>assert\<close> is a check that is executed (the
  interpreter does not run with \<^verbatim>\<open>-O\<close>), on the float sum \<open>fadd x width\<close>.
  \<^verbatim>\<open>width/ncols\<close> divides Python numbers.
\<close>

definition create_axes :: "real list \<Rightarrow> int \<Rightarrow> env \<Rightarrow> axes list result \<times> env" where
  "create_axes pos ncols s =
     (case pos of
        [x, y, width, height] \<Rightarrow>
          if \<not> (fadd x width \<le> 1) then (Raise AssertionError, s)
          else if ncols = 0 then (Raise ZeroDivisionError, s)
          else
            (let colwidth = width / real_of_int ncols;
                 axs = map (\<lambda>i. new_axes (Some [x + real i * colwidth, y, colwidth, height]))
                         [0..<nat ncols]
             in (Ok axs, fold add_axes axs s))
      | _ \<Rightarrow> (Raise ValueError, s))"

section \<open>add_text\<close>

text \<open>\<^verbatim>\<open>self.ax.text(xpos, ypos, txt, kwargs)\<close>: the keyword dict is handed on as the text's
  font dict.\<close>

definition add_text :: "real \<Rightarrow> real \<Rightarrow> string \<Rightarrow> kwargs \<Rightarrow> env \<Rightarrow> unit result \<times> env" where
  "add_text xpos ypos txt kw s = (Ok (), draw (Text xpos ypos (PyStr txt) kw) s)"

section \<open>set_demographics\<close>

text \<open>\<^verbatim>\<open>str(v)\<close>: a string is itself; \<open>repr\<close> stands for the formatting of any other object.\<close>

definition py_str :: "(pyval \<Rightarrow> string) \<Rightarrow> pyval \<Rightarrow> string" where
  "py_str repr v = (case v of PyStr s \<Rightarrow> s | _ \<Rightarrow> repr v)"

text \<open>\<^verbatim>\<open>np.cumsum\<close> on a list of lengths.\<close>

fun cumsum_from :: "nat \<Rightarrow> nat list \<Rightarrow> nat list" where
  "cumsum_from acc [] = []"
| "cumsum_from acc (n # ns) = (acc + n) # cumsum_from (acc + n) ns"

definition cumsum :: "nat list \<Rightarrow> nat list" where
  "cumsum ns = cumsum_from 0 ns"

text \<open>
  The second loop of \<^verbatim>\<open>set_demographics\<close>, from counter \<open>i\<close> over the remaining items.
  \<open>cs ! (i - 1)\<close> is read only for \<open>0 < i\<close>, where \<open>i - 1\<close> is the index of an earlier item.
\<close>

fun demographics_loop ::
  "real \<Rightarrow> real \<Rightarrow> real \<Rightarrow> nat \<Rightarrow> nat list \<Rightarrow> real \<Rightarrow> nat \<Rightarrow> (string \<times> pyval) list \<Rightarrow> env \<Rightarrow> env" where
  "demographics_loop x y width nfields cs colwidth i [] s = s"
| "demographics_loop x y width nfields cs colwidth i ((k, v) # rest) s =
     (let x0 = x + 0.01;
          xpos = (if i = 0 then x0 else x0 + real (cs ! (i - 1)) * colwidth);
          s' = (if nfields > 1 \<and> i = nfields - 1
                then draw (Text (x + width - 0.01) (y - 0.03) v [(''fontsize'', PyInt 9), (''ha'', PyStr ''right'')])
                       (draw (Text (x + width - 0.01) (y - 0.015) (PyStr k) [(''fontsize'', PyInt 7), (''ha'', PyStr ''right'')]) s)
                else draw (Text xpos (y - 0.03) v [(''fontsize'', PyInt 9), (''ha'', PyStr ''left'')])
                       (draw (Text xpos (y - 0.015) (PyStr k) [(''fontsize'', PyInt 7), (''ha'', PyStr ''left'')]) s))
      in demographics_loop x y width nfields cs colwidth (i + 1) rest s')"

text \<open>
  \<open>flds\<close> is the dict \<^verbatim>\<open>fields\<close> in insertion order. The division by \<^verbatim>\<open>np.sum\<close> is numpy's: a zero
  sum raises nothing; it can only occur for a single field with empty label and value,
  where \<open>colwidth\<close> is never read.
\<close>

definition set_demographics ::
  "(pyval \<Rightarrow> string) \<Rightarrow> real list \<Rightarrow> (string \<times> pyval) list \<Rightarrow> env \<Rightarrow> unit result \<times> env" where
  "set_demographics repr pos flds s =
     (case pos of
        [x, y, width, height] \<Rightarrow>
          if \<not> (fadd x width \<le> 1) then (Raise AssertionError, s)
          else
            (let ymax = y;
                 ymin = y - height;
                 s1 = draw (HLine ymax x (x + width) [(''color'', PyStr ''k''), (''linewidth'', PyInt 1)]) s;
                 s2 = draw (HLine ymin x (x + width) [(''color'', PyStr ''k''), (''linewidth'', PyInt 1)]) s1;
                 nfields = length flds
             in if nfields = 0 then (Ok (), s2)
                else
                  (let strlen = map (\<lambda>(k, v). max (length k) (length (py_str repr v))) flds;
                       colwidth = (width - 0.02) / real (sum_list strlen)
                   in (Ok (), demographics_loop x y width nfields (cumsum strlen) colwidth 0 flds s2)))
      | _ \<Rightarrow> (Raise ValueError, s))"

section \<open>create_table\<close>

text \<open>
  \<open>data\<close> is the nested dict in insertion order. The loop variables \<^verbatim>\<open>col\<close> and \<^verbatim>\<open>row\<close>
  are read again after the loops, so each loop returns what it last bound them to
  (\<open>None\<close>: never bound).
\<close>

definition light_gray :: kwargs where
  "light_gray = [(''color'', PyTuple [PyFloat 0.9, PyFloat 0.9, PyFloat 0.9]), (''linewidth'', PyInt 1)]"

definition black :: kwargs where
  "black = [(''color'', PyStr ''k''), (''linewidth'', PyInt 1)]"

fun header_loop ::
  "real \<Rightarrow> real \<Rightarrow> real \<Rightarrow> bool \<Rightarrow> nat \<Rightarrow> string list \<Rightarrow> env \<times> nat option \<Rightarrow> env \<times> nat option" where
  "header_loop x y colwidth rowheader col [] st = st"
| "header_loop x y colwidth rowheader col (key # keys) (s, cv) =
     header_loop x y colwidth rowheader (col + 1) keys
       (draw (Text (x + 0.015 + real (col + of_bool rowheader) * colwidth) (y - 0.03) (PyStr key)
                [(''weight'', PyStr ''bold''), (''fontsize'', PyInt 8), (''ha'', PyStr ''left'')]) s,
        Some col)"

text \<open>The body of the inner loop: one cell of column \<open>col\<close> at row \<open>row\<close>.\<close>

definition table_cell ::
  "real \<Rightarrow> real \<Rightarrow> real \<Rightarrow> bool \<Rightarrow> nat \<Rightarrow> nat \<Rightarrow> string \<Rightarrow> pyval \<Rightarrow> env \<Rightarrow> env" where
  "table_cell x y colwidth rowheader col row key val s =
     (let s1 = (if col = 0 \<and> rowheader
                then draw (HLine (y - 0.069 - real row * 0.025) x (x + colwidth) light_gray)
                       (draw (Text (x + 0.01) (y - 0.06 - real row * 0.025) (PyStr key)
                                [(''fontsize'', PyInt 8), (''weight'', PyStr ''bold'')]) s)
                else s);
          i = col + of_bool rowheader;
          s2 = draw (Text (x + 0.015 + real i * colwidth) (y - 0.06 - real row * 0.025) val
                       [(''fontsize'', PyInt 8), (''ha'', PyStr ''left'')]) s1
      in draw (HLine (y - 0.069 - real row * 0.025) (x + 0.01 + real i * colwidth)
                 (x + real (i + 1) * colwidth) light_gray) s2)"

fun rows_loop ::
  "real \<Rightarrow> real \<Rightarrow> real \<Rightarrow> bool \<Rightarrow> nat \<Rightarrow> nat \<Rightarrow> (string \<times> pyval) list \<Rightarrow> env \<times> nat option \<Rightarrow> env \<times> nat option" where
  "rows_loop x y colwidth rowheader col row [] st = st"
| "rows_loop x y colwidth rowheader col row ((key, val) # rest) (s, rv) =
     rows_loop x y colwidth rowheader col (row + 1) rest
       (table_cell x y colwidth rowheader col row key val s, Some row)"

fun cols_loop ::
  "real \<Rightarrow> real \<Rightarrow> real \<Rightarrow> bool \<Rightarrow> nat \<Rightarrow> (string \<times> (string \<times> pyval) list) list \<Rightarrow>
   env \<times> nat option \<times> nat option \<Rightarrow> env \<times> nat option \<times> nat option" where
  "cols_loop x y colwidth rowheader col [] st = st"
| "cols_loop x y colwidth rowheader col ((k, vals) # rest) (s, cv, rv) =
     (case rows_loop x y colwidth rowheader col 0 vals (s, rv) of
        (s', rv') \<Rightarrow> cols_loop x y colwidth rowheader (col + 1) rest (s', Some col, rv'))"

definition create_table ::
  "real list \<Rightarrow> (string \<times> (string \<times> pyval) list) list \<Rightarrow> bool \<Rightarrow> env \<Rightarrow> unit result \<times> env" where
  "create_table pos data rowheader s =
     (case pos of
        [x, y, width, h] \<Rightarrow>
          if \<not> (fadd x width \<le> 1) then (Raise AssertionError, s)
          else
            (let ncols = length data + of_bool rowheader
             in if ncols = 0 then (Raise ZeroDivisionError, s)
                else
                  (let colwidth = width / real ncols;
                       s1 = draw (HLine (y - 0.01) x (x + width) black) s
                   in case header_loop x y colwidth rowheader 0 (map fst data) (s1, None) of
                        (s2, cv) \<Rightarrow>
                          (let s3 = draw (HLine (y - 0.04) x (x + width) black) s2
                           in case cols_loop x y colwidth rowheader 0 data (s3, cv, None) of
                                (s4, None, rv) \<Rightarrow> (Raise (UnboundLocalError ''col''), s4)
                              | (s4, Some col, None) \<Rightarrow> (Raise (UnboundLocalError ''row''), s4)
                              | (s4, Some col, Some row) \<Rightarrow>
                                  (Ok (), draw (HLine (y - 0.069 - real row * 0.025)
                                                  (x + 0.01 + real col * colwidth)
                                                  (x + real (col + 1) * colwidth) light_gray) s4))))
      | _ \<Rightarrow> (Raise ValueError, s))"

section \<open>set_footer\<close>

type_synonym entry = "string \<rightharpoonup> pyval"

text \<open>A number read from a dictionary value; arithmetic on anything else is a \<^verbatim>\<open>TypeError\<close>.\<close>

definition num_of :: "pyval \<Rightarrow> real option" where
  "num_of v = (case v of PyInt i \<Rightarrow> Some (real_of_int i) | PyFloat r \<Rightarrow> Some r | _ \<Rightarrow> None)"

text \<open>
  The \<^verbatim>\<open>if pos == 'left' ... elif pos == 'center' ... elif pos == 'right'\<close> chains that
  set \<^verbatim>\<open>xpos\<close> for a text and for an image of width \<open>width\<close>; \<open>None\<close>: no branch
  assigns it.
\<close>

definition text_xpos :: "string \<Rightarrow> real option" where
  "text_xpos pos =
     (if pos = ''left'' then Some (margin ! 3)
      else if pos = ''center'' then Some 0.5
      else if pos = ''right'' then Some (1 - margin ! 1)
      else None)"

definition image_xpos :: "string \<Rightarrow> real \<Rightarrow> real option" where
  "image_xpos pos width =
     (if pos = ''left'' then Some (margin ! 3)
      else if pos = ''center'' then Some (0.5 - width / 2)
      else if pos = ''right'' then Some (1 - margin ! 1 - width)
      else None)"

text \<open>
  One iteration of the loop over \<^verbatim>\<open>['left', 'center', 'right']\<close>. \<open>imread\<close> stands for
  \<^verbatim>\<open>plt.imread\<close> and \<open>text_color\<close> for \<^verbatim>\<open>mpl.rcParams['text.color']\<close>.
\<close>

definition footer_entry ::
  "(pyval \<Rightarrow> error + image) \<Rightarrow> pyval \<Rightarrow> (string \<rightharpoonup> entry) \<Rightarrow> real \<Rightarrow> string \<Rightarrow> env \<Rightarrow> unit result \<times> env" where
  "footer_entry imread text_color data ypos pos s =
     (case data pos of
        None \<Rightarrow> (Ok (), s)
      | Some d \<Rightarrow>
          (case d ''type'' of
             None \<Rightarrow> (Raise (KeyError ''type''), s)
           | Some t \<Rightarrow>
               if t = PyStr ''text'' then
                 (let textcolor = (case d ''color'' of Some c \<Rightarrow> c | None \<Rightarrow> text_color);
                      fontsize = (case d ''fontsize'' of Some f \<Rightarrow> f | None \<Rightarrow> PyStr ''x-small'');
                      linespacing = (case d ''linespacing'' of Some l \<Rightarrow> l | None \<Rightarrow> PyFloat 1.5);
                      xpos = text_xpos pos
                  in case xpos of
                       None \<Rightarrow> (Raise (UnboundLocalError ''xpos''), s)
                     | Some xp \<Rightarrow>
                         (case d ''content'' of
                            None \<Rightarrow> (Raise (KeyError ''content''), s)
                          | Some c \<Rightarrow>
                              (Ok (), draw (Text xp ypos c
                                              [(''fontsize'', fontsize), (''color'', textcolor),
                                               (''linespacing'', linespacing), (''ha'', PyStr pos)]) s)))
               else if t = PyStr ''img'' then
                 (let s1 = (case d ''src'' of
                              Some p \<Rightarrow> s
                            | None \<Rightarrow> s\<lparr>stdout := stdout s @ [''Error: src not found'']\<rparr>);
                      pngfile = (case d ''src'' of Some p \<Rightarrow> p | None \<Rightarrow> PyNone)
                  in case imread pngfile of
                       Inl e \<Rightarrow> (Raise e, s1)
                     | Inr im \<Rightarrow>
                         (let height = (case d ''height'' of
                                          Some h \<Rightarrow> h
                                        | None \<Rightarrow> PyFloat ((1 - margin ! 0 - ypos) / 15))
                          in case num_of height of
                               None \<Rightarrow> (Raise TypeError, s1)
                             | Some h \<Rightarrow>
                                 if rows im = 0 then (Raise ZeroDivisionError, s1)
                                 else
                                   (let width = real (cols im) * h / real (rows im);
                                        xpos = image_xpos pos width
                                    in case xpos of
                                         None \<Rightarrow> (Raise (UnboundLocalError ''xpos''), s1)
                                       | Some xp \<Rightarrow>
                                           (Ok (),
                                            add_axes
                                              ((new_axes (Some [xp, ypos - 0.008, width, h]))
                                                 \<lparr>artists := [AxesImage im [(''interpolation'', PyStr ''none'')]],
                                                  axis_on := False\<rparr>) s1))))
               else (Ok (), s)))"

fun footer_loop ::
  "(pyval \<Rightarrow> error + image) \<Rightarrow> pyval \<Rightarrow> (string \<rightharpoonup> entry) \<Rightarrow> real \<Rightarrow> string list \<Rightarrow> env \<Rightarrow> unit result \<times> env" where
  "footer_loop imread text_color data ypos [] s = (Ok (), s)"
| "footer_loop imread text_color data ypos (pos # rest) s =
     (case footer_entry imread text_color data ypos pos s of
        (Ok u, s') \<Rightarrow> footer_loop imread text_color data ypos rest s'
      | (Raise e, s') \<Rightarrow> (Raise e, s'))"

definition set_footer ::
  "(pyval \<Rightarrow> error + image) \<Rightarrow> pyval \<Rightarrow> (string \<rightharpoonup> entry) \<Rightarrow> real option \<Rightarrow> env \<Rightarrow> unit result \<times> env" where
  "set_footer imread text_color data ypos s =
     (let ypos' = (case ypos of None \<Rightarrow> margin ! 2 | Some yp \<Rightarrow> yp)
      in footer_loop imread text_color data ypos' [''left'', ''center'', ''right''] s)"

section \<open>Instances, pyplot's figure registry and save\<close>

text \<open>
  Several instances live in one interpreter. \<open>heap\<close> holds every figure object by
  address; \<open>registry\<close> is pyplot's list of open figures, the last one being the current
  figure (\<^verbatim>\<open>plt.gcf()\<close>); \<open>files\<close> are the documents written so far.
\<close>

datatype regfig = Owned nat | Anonymous

datatype document = Page figure | BlankFigure

record world =
  heap :: "nat \<Rightarrow> figure"
  next_ref :: nat
  registry :: "regfig list"
  files :: "string \<rightharpoonup> document"
  out :: "string list"

record rhreports =
  fig_ref :: nat

text \<open>\<^verbatim>\<open>__init__\<close>: \<^verbatim>\<open>plt.subplots\<close> makes a new figure and makes it pyplot's current one.\<close>

definition init :: "world \<Rightarrow> rhreports \<times> world" where
  "init w =
     (\<lparr>fig_ref = next_ref w\<rparr>,
      w\<lparr>heap := (heap w)(next_ref w := init_figure),
        next_ref := Suc (next_ref w),
        registry := registry w @ [Owned (next_ref w)]\<rparr>)"

text \<open>A drawing method called on an instance: it runs on \<^verbatim>\<open>self.fig\<close> and standard output.\<close>

definition call :: "(env \<Rightarrow> 'a result \<times> env) \<Rightarrow> rhreports \<Rightarrow> world \<Rightarrow> 'a result \<times> world" where
  "call m self w =
     (case m \<lparr>fig = heap w (fig_ref self), stdout = out w\<rparr> of
        (r, e) \<Rightarrow> (r, w\<lparr>heap := (heap w)(fig_ref self := fig e), out := stdout e\<rparr>))"

text \<open>
  \<^verbatim>\<open>plt.savefig(filename, format='pdf')\<close> writes pyplot's current figure; with no open
  figure, \<^verbatim>\<open>plt.gcf()\<close> first opens a new bare one. \<^verbatim>\<open>plt.close(self.fig)\<close> then takes
  the instance's figure out of the registry.
\<close>

definition savefig :: "string \<Rightarrow> world \<Rightarrow> world" where
  "savefig filename w =
     (case registry w of
        [] \<Rightarrow> w\<lparr>registry := [Anonymous], files := (files w)(filename \<mapsto> BlankFigure)\<rparr>
      | r # rs \<Rightarrow>
          (case last (r # rs) of
             Owned n \<Rightarrow> w\<lparr>files := (files w)(filename \<mapsto> Page (heap w n))\<rparr>
           | Anonymous \<Rightarrow> w\<lparr>files := (files w)(filename \<mapsto> BlankFigure)\<rparr>))"

definition close :: "nat \<Rightarrow> world \<Rightarrow> world" where
  "close n w = w\<lparr>registry := filter (\<lambda>r. r \<noteq> Owned n) (registry w)\<rparr>"

definition save :: "rhreports \<Rightarrow> string \<Rightarrow> world \<Rightarrow> string result \<times> world" where
  "save self filename w = (Ok filename, close (fig_ref self) (savefig filename w))"

section \<open>Notions used in the statements\<close>

text \<open>A new instance's state: the blank page, nothing printed.\<close>

definition blank :: env where
  "blank = \<lparr>fig = init_figure, stdout = []\<rparr>"

text \<open>What has been drawn on the base axes so far.\<close>

abbreviation drawn :: "env \<Rightarrow> artist list" where
  "drawn s \<equiv> artists (ax (fig s))"

text \<open>
  The quantities of the demographics strip in the specification's words: the string
  length of a field, \<open>max(len(label), len(str(value)))\<close>, and the x-start of field \<open>i\<close>,
  \<open>x + 0.01 + (strlen_0 + ... + strlen_{i-1}) * colWidth\<close> with
  \<open>colWidth = (width - 0.02) / sum(strlen)\<close>.
\<close>

definition strlens :: "(pyval \<Rightarrow> string) \<Rightarrow> (string \<times> pyval) list \<Rightarrow> nat list" where
  "strlens repr flds = map (\<lambda>(k, v). max (length k) (length (py_str repr v))) flds"

definition x_start :: "(pyval \<Rightarrow> string) \<Rightarrow> real \<Rightarrow> real \<Rightarrow> (string \<times> pyval) list \<Rightarrow> nat \<Rightarrow> real" where
  "x_start repr x width flds i =
     x + 0.01 + real (sum_list (take i (strlens repr flds))) * ((width - 0.02) / real (sum_list (strlens repr flds)))"

text \<open>The two texts of the field at position \<open>i\<close> of the dict, as the loop body draws them.\<close>

definition field_label :: "real \<Rightarrow> real \<Rightarrow> real \<Rightarrow> nat \<Rightarrow> nat list \<Rightarrow> real \<Rightarrow> nat \<Rightarrow> string \<Rightarrow> artist" where
  "field_label x y w n cs cw i k =
     (if n > 1 \<and> i = n - 1
      then Text (x + w - 0.01) (y - 0.015) (PyStr k) [(''fontsize'', PyInt 7), (''ha'', PyStr ''right'')]
      else Text (if i = 0 then x + 0.01 else x + 0.01 + real (cs ! (i - 1)) * cw) (y - 0.015) (PyStr k)
             [(''fontsize'', PyInt 7), (''ha'', PyStr ''left'')])"

definition field_value :: "real \<Rightarrow> real \<Rightarrow> real \<Rightarrow> nat \<Rightarrow> nat list \<Rightarrow> real \<Rightarrow> nat \<Rightarrow> pyval \<Rightarrow> artist" where
  "field_value x y w n cs cw i v =
     (if n > 1 \<and> i = n - 1
      then Text (x + w - 0.01) (y - 0.03) v [(''fontsize'', PyInt 9), (''ha'', PyStr ''right'')]
      else Text (if i = 0 then x + 0.01 else x + 0.01 + real (cs ! (i - 1)) * cw) (y - 0.03) v
             [(''fontsize'', PyInt 9), (''ha'', PyStr ''left'')])"

text \<open>The axes that \<open>set_footer\<close> adds for an image: the rectangle, the image shown in it, no axis frame.\<close>

definition image_axes :: "real \<Rightarrow> real \<Rightarrow> real \<Rightarrow> real \<Rightarrow> image \<Rightarrow> axes" where
  "image_axes xp yp width height im =
     (new_axes (Some [xp, yp - 0.008, width, height]))
       \<lparr>artists := [AxesImage im [(''interpolation'', PyStr ''none'')]], axis_on := False\<rparr>"

text \<open>An image loader that knows one file of 100 rows and 300 columns, and an image entry
  for that file which gives no height.\<close>

definition logo_reader :: "pyval \<Rightarrow> error + image" where
  "logo_reader p = (if p = PyStr ''logo.png'' then Inr \<lparr>rows = 100, cols = 300\<rparr> else Inl (LoadError ''no such file''))"

definition logo_entry :: entry where
  "logo_entry = [''type'' \<mapsto> PyStr ''img'', ''src'' \<mapsto> PyStr ''logo.png'']"

text \<open>An interpreter in which no figure has been opened yet.\<close>

definition world0 :: world where
  "world0 = \<lparr>heap = (\<lambda>n. init_figure), next_ref = 0, registry = [], files = Map.empty, out = []\<rparr>"

section \<open>Properties\<close>

lemma drawn_draw [simp]: "drawn (draw a s) = drawn s @ [a]"
  by (simp add: draw_def)

lemma added_draw [simp]: "added (fig (draw a s)) = added (fig s)"
  by (simp add: draw_def)

lemma stdout_draw [simp]: "stdout (draw a s) = stdout s"
  by (simp add: draw_def)

subsection \<open>Rounding and the bound 1\<close>

lemma round_half_even_ge: "real_of_int n \<le> r \<Longrightarrow> n \<le> round_half_even r"
proof -
  assume "real_of_int n \<le> r"
  then have "n \<le> \<lfloor>r\<rfloor>" by (simp add: le_floor_iff)
  then show ?thesis by (auto simp: round_half_even_def Let_def)
qed

lemma round_half_even_le: "r \<le> real_of_int n \<Longrightarrow> round_half_even r \<le> n"
proof -
  assume a: "r \<le> real_of_int n"
  then have f: "\<lfloor>r\<rfloor> \<le> n" by (simp add: floor_le_iff)
  show ?thesis
  proof (cases "r = real_of_int \<lfloor>r\<rfloor>")
    case True
    then show ?thesis using f by (simp add: round_half_even_def Let_def)
  next
    case False
    then have "real_of_int \<lfloor>r\<rfloor> < r" using of_int_floor_le [of r] by linarith
    with a have "real_of_int \<lfloor>r\<rfloor> < real_of_int n" by linarith
    then have "\<lfloor>r\<rfloor> + 1 \<le> n" by simp
    then show ?thesis by (auto simp: round_half_even_def Let_def)
  qed
qed

lemma round_half_even_le_even:
  assumes "even n"
  shows "round_half_even r \<le> n \<longleftrightarrow> r \<le> real_of_int n + 1 / 2"
proof -
  let ?f = "\<lfloor>r\<rfloor>"
  have lo: "real_of_int ?f \<le> r" and hi: "r < real_of_int ?f + 1" by linarith+
  consider "?f < n" | "?f = n" | "n < ?f" by linarith
  then show ?thesis
  proof cases
    case 1
    then have "?f + 1 \<le> n" by simp
    then have "real_of_int ?f + 1 \<le> real_of_int n" by linarith
    moreover have "round_half_even r \<le> ?f + 1" by (simp add: round_half_even_def Let_def)
    ultimately show ?thesis using hi 1 by linarith
  next
    case 2
    then show ?thesis using assms lo hi by (auto simp: round_half_even_def Let_def)
  next
    case 3
    then have "n + 1 \<le> ?f" by simp
    then have "real_of_int n + 1 \<le> real_of_int ?f" by linarith
    moreover have "?f \<le> round_half_even r" by (simp add: round_half_even_def Let_def)
    ultimately show ?thesis using lo 3 by linarith
  qed
qed

lemma double_exponent_Some:
  assumes "double_exponent r = Some e"
  shows "- 1022 \<le> e" and "e \<le> 1023" and "\<bar>r\<bar> < 2 powi (e + 1)"
    and "\<And>e'. - 1022 \<le> e' \<Longrightarrow> e' < e \<Longrightarrow> 2 powi (e' + 1) \<le> \<bar>r\<bar>"
proof -
  let ?P = "\<lambda>e. \<bar>r\<bar> < 2 powi (e + 1)"
  let ?xs = "[-1022..1023::int]"
  from assms obtain i where i: "i < length ?xs" "?P (?xs ! i)" "e = ?xs ! i" "\<forall>j<i. \<not> ?P (?xs ! j)"
    unfolding double_exponent_def find_Some_iff by blast
  have len: "length ?xs = 2046" by simp
  have nth: "?xs ! k = - 1022 + int k" if "k < 2046" for k
    using that by (intro nth_upto) simp
  have e: "e = - 1022 + int i" using i(1,3) nth len by simp
  show "- 1022 \<le> e" using e by simp
  show "e \<le> 1023" using e i(1) len by simp
  show "\<bar>r\<bar> < 2 powi (e + 1)" using i(2,3) by simp
  fix e' :: int assume a: "- 1022 \<le> e'" "e' < e"
  define j where "j = nat (e' + 1022)"
  have j: "j < i" "e' = - 1022 + int j" using a e by (simp_all add: j_def)
  then have "j < 2046" using i(1) len by simp
  with i(4) j nth have "\<not> ?P e'" by auto
  then show "2 powi (e' + 1) \<le> \<bar>r\<bar>" by simp
qed

lemma double_exponent_None:
  assumes "double_exponent r = None"
  shows "2 powi 1024 \<le> \<bar>r\<bar>"
proof -
  have "(1023::int) \<in> set [-1022..1023]" by simp
  with assms have "\<not> \<bar>r\<bar> < 2 powi (1023 + 1)"
    unfolding double_exponent_def find_None_iff by blast
  then show ?thesis by simp
qed


lemma fl_le_one_iff: "fl s \<le> 1 \<longleftrightarrow> s \<le> 1 + 1 / 2 ^ 53"
proof (cases "double_exponent s")
  case None
  from double_exponent_None [OF None] have "(2::real) ^ 1024 \<le> \<bar>s\<bar>" by simp
  moreover have "(2::real) \<le> 2 ^ 1024" by simp
  ultimately have "2 \<le> \<bar>s\<bar>" by linarith
  moreover have "1 / 2 ^ 53 \<le> (1::real)" by simp
  ultimately show ?thesis using None by (auto simp: fl_def abs_real_def split: if_splits)
next
  case (Some e)
  note E = double_exponent_Some [OF Some]
  let ?u = "(2::real) powi (e - 52)"
  let ?m = "round_half_even (s / ?u)"
  have u: "0 < ?u" by (simp add: zero_less_power_int)
  have fl: "fl s = real_of_int ?m * ?u" using Some by (simp add: fl_def)
  have top: "(2::real) powi (e + 1) = 2 ^ 53 * ?u"
  proof -
    have "(2::real) powi (e + 1) = 2 powi (53 + (e - 52))"
      by (rule arg_cong [where f = "power_int 2"]) simp
    also have "\<dots> = 2 powi 53 * ?u" by (rule power_int_add) simp
    finally show ?thesis by simp
  qed
  have bot: "(2::real) powi e = 2 ^ 52 * ?u"
  proof -
    have "(2::real) powi e = 2 powi (52 + (e - 52))"
      by (rule arg_cong [where f = "power_int 2"]) simp
    also have "\<dots> = 2 powi 52 * ?u" by (rule power_int_add) simp
    finally show ?thesis by simp
  qed
  consider "s \<le> 0" | "0 < s" "s < 1" | "1 \<le> s" "s < 2" | "2 \<le> s" by linarith
  then show ?thesis
  proof cases
    case 1
    then have "s / ?u \<le> real_of_int 0" using u by (simp add: divide_nonpos_pos)
    then have "?m \<le> 0" by (rule round_half_even_le)
    then have "real_of_int ?m * ?u \<le> 0" using u by (simp add: mult_nonpos_nonneg)
    moreover have "0 \<le> 1 + 1 / (2::real) ^ 53" by simp
    ultimately show ?thesis using 1 fl by linarith
  next
    case 2
    have e: "e \<le> - 1"
    proof (rule ccontr)
      assume "\<not> e \<le> - 1"
      then have "- 1 < e" by simp
      from E(4) [of "- 1"] this have "(2::real) powi (- 1 + 1) \<le> \<bar>s\<bar>" by simp
      with 2 show False by simp
    qed
    have "s < 2 ^ 53 * ?u" using E(3) 2 top by simp
    then have "s / ?u \<le> real_of_int (2 ^ 53)" using u by (simp add: pos_divide_le_eq)
    then have "?m \<le> 2 ^ 53" by (rule round_half_even_le)
    then have "real_of_int ?m \<le> real_of_int (2 ^ 53)" by (simp only: of_int_le_iff)
    then have "real_of_int ?m \<le> 2 ^ 53" by simp
    then have "real_of_int ?m * ?u \<le> 2 ^ 53 * ?u" using u by (simp add: mult_right_mono)
    also have "\<dots> = 2 powi (e + 1)" using top by simp
    also have "\<dots> \<le> 2 powi 0" using e by (intro power_int_increasing) simp_all
    finally have "fl s \<le> 1" using fl by simp
    moreover have "0 \<le> 1 / (2::real) ^ 53" by simp
    ultimately show ?thesis using 2 by linarith
  next
    case 3
    have "e \<le> 0"
    proof (rule ccontr)
      assume "\<not> e \<le> 0"
      then have "0 < e" by simp
      from E(4) [of 0] this have "(2::real) powi (0 + 1) \<le> \<bar>s\<bar>" by simp
      with 3 show False by simp
    qed
    moreover have "0 \<le> e"
    proof (rule ccontr)
      assume "\<not> 0 \<le> e"
      then have "e + 1 \<le> 0" by simp
      then have "(2::real) powi (e + 1) \<le> 2 powi 0" by (intro power_int_increasing) simp_all
      with E(3) 3 show False by simp
    qed
    ultimately have e: "e = 0" by simp
    have uval: "?u = 1 / 2 ^ 52" unfolding e by (simp add: power_int_minus_divide)
    have "fl s \<le> 1 \<longleftrightarrow> real_of_int ?m \<le> 2 ^ 52"
      unfolding fl uval by (simp add: field_simps)
    also have "\<dots> \<longleftrightarrow> ?m \<le> 2 ^ 52"
      by (metis of_int_le_iff of_int_numeral of_int_power)
    also have "\<dots> \<longleftrightarrow> s / ?u \<le> real_of_int (2 ^ 52) + 1 / 2"
      by (rule round_half_even_le_even) simp
    also have "\<dots> \<longleftrightarrow> s \<le> 1 + 1 / 2 ^ 53"
      unfolding uval by (simp add: field_simps)
    finally show ?thesis .
  next
    case 4
    have pos: "0 < e"
    proof (rule ccontr)
      assume "\<not> 0 < e"
      then have "e + 1 \<le> 1" by simp
      then have "(2::real) powi (e + 1) \<le> 2 powi 1" by (intro power_int_increasing) simp_all
      with E(3) 4 show False by simp
    qed
    from E(4) [of "e - 1"] pos have "(2::real) powi e \<le> \<bar>s\<bar>" by simp
    with 4 have "2 ^ 52 * ?u \<le> s" using bot by simp
    then have "real_of_int (2 ^ 52) \<le> s / ?u" using u by (simp add: pos_le_divide_eq)
    then have "2 ^ 52 \<le> ?m" by (rule round_half_even_ge)
    then have "real_of_int (2 ^ 52) \<le> real_of_int ?m" by (simp only: of_int_le_iff)
    then have "2 ^ 52 \<le> real_of_int ?m" by simp
    then have m: "2 ^ 52 * ?u \<le> real_of_int ?m * ?u" using u by (simp add: mult_right_mono)
    have "(2::real) = 2 powi 1" by simp
    also have "\<dots> \<le> 2 powi e" using pos by (intro power_int_increasing) simp_all
    also have "\<dots> = 2 ^ 52 * ?u" by (rule bot)
    also have "\<dots> \<le> real_of_int ?m * ?u" by (rule m)
    finally have "2 \<le> fl s" unfolding fl .
    moreover have "1 / (2::real) ^ 53 < 1" by simp
    ultimately show ?thesis using 4 by linarith
  qed
qed

lemma fadd_le_one_iff: "fadd a b \<le> 1 \<longleftrightarrow> a + b \<le> 1 + 1 / 2 ^ 53"
  by (simp add: fadd_def fl_le_one_iff)

lemma fadd_le_one: "a + b \<le> 1 \<Longrightarrow> fadd a b \<le> 1"
proof -
  assume "a + b \<le> 1"
  moreover have "0 \<le> 1 / (2::real) ^ 53" by simp
  ultimately have "a + b \<le> 1 + 1 / 2 ^ 53" by linarith
  then show ?thesis by (simp only: fadd_le_one_iff)
qed

lemma fadd_gt_one_iff: "fadd a b > 1 \<longleftrightarrow> a + b > 1 + 1 / 2 ^ 53"
  using fadd_le_one_iff [of a b] by linarith

subsection \<open>The bounds check\<close>

text \<open>
  C1, as stated, fails: the doubles \<open>0.3 = 5404319552844595 / 2^54\<close> and
  \<open>0.7000000000000001 = 6305039478318695 / 2^53\<close> have a sum above 1, by \<open>2^-54\<close>, which
  rounds to 1. On the region with this left edge and width the assertion holds, and
  \<open>create_axes\<close>, \<open>set_demographics\<close> and \<open>create_table\<close> all return normally;
  \<open>set_demographics\<close> has drawn its two lines.
\<close>

theorem layout_violation_counterexample:
  "(5404319552844595 / 2 ^ 54 :: real) + 6305039478318695 / 2 ^ 53 > 1
   \<and> fst (create_axes [5404319552844595 / 2 ^ 54, 0.1, 6305039478318695 / 2 ^ 53, 0.2] 1 blank) \<noteq> Raise AssertionError
   \<and> fst (set_demographics (\<lambda>v. []) [5404319552844595 / 2 ^ 54, 0.9, 6305039478318695 / 2 ^ 53, 0.05] [] blank) = Ok ()
   \<and> length (drawn (snd (set_demographics (\<lambda>v. []) [5404319552844595 / 2 ^ 54, 0.9, 6305039478318695 / 2 ^ 53, 0.05] [] blank))) = 2
   \<and> fst (create_table [5404319552844595 / 2 ^ 54, 0.9, 6305039478318695 / 2 ^ 53, 0]
             [(''A'', [(''r1'', PyInt 1)])] True blank) = Ok ()"
  by (simp add: create_axes_def set_demographics_def create_table_def table_cell_def fadd_le_one_iff
        blank_def init_figure_def new_axes_def Let_def)

text \<open>
  C1, amended: for every region \<open>[left, bottom, width, height]\<close> whose sum \<open>left + width\<close>,
  as Python computes it in double precision, is above 1, each of \<open>create_axes\<close>,
  \<open>set_demographics\<close> and \<open>create_table\<close> ends with the assertion's error and returns
  the state it was given: nothing is drawn by the failing call and everything drawn
  before is still there. The float sum is above 1 exactly when the exact sum is above
  \<open>1 + 2^-53\<close> (\<open>fadd_gt_one_iff\<close>).
\<close>

theorem layout_violation:
  assumes "fadd left width > 1"
  shows "create_axes [left, bottom, width, height] ncols s = (Raise AssertionError, s)
       \<and> set_demographics repr [left, bottom, width, height] flds s = (Raise AssertionError, s)
       \<and> create_table [left, bottom, width, height] data rowheader s = (Raise AssertionError, s)"
  using assms by (simp add: create_axes_def set_demographics_def create_table_def)

theorem layout_violation_witness:
  "fadd 0.8 0.3 > 1
   \<and> create_axes [0.8, 0.1, 0.3, 0.2] 1 blank = (Raise AssertionError, blank)
   \<and> set_demographics (\<lambda>v. []) [0.8, 0.1, 0.3, 0.2] [(''Name'', PyStr ''Ada'')] blank = (Raise AssertionError, blank)
   \<and> create_table [0.8, 0.1, 0.3, 0.2] [(''A'', [(''r1'', PyInt 1)])] True blank = (Raise AssertionError, blank)"
proof -
  have h: "fadd 0.8 0.3 > 1" by (simp add: fadd_gt_one_iff)
  show ?thesis
    using h layout_violation [OF h, of "0.1" "0.2" 1 blank "\<lambda>v. []" "[(''Name'', PyStr ''Ada'')]" "[(''A'', [(''r1'', PyInt 1)])]" True]
    by simp
qed

subsection \<open>The title block\<close>

text \<open>
  C5: without a subtitle \<open>set_title\<close> draws exactly one text, the bold title at the left
  margin (0.075); with a subtitle it draws exactly two, the second at
  \<open>marginLeft + measuredTitleWidth - 0.005 * len(title)\<close>, where the measured width is
  the renderer's measurement of the title just drawn. No axes is added either way.
\<close>

theorem set_title_places:
  "set_title text_width ypos title None s =
     (Ok (), draw (Text 0.075 ypos (PyStr title) [(''weight'', PyStr ''bold''), (''fontsize'', PyInt 24)]) s)
   \<and> drawn (snd (set_title text_width ypos title None s)) =
       drawn s @ [Text (margin ! 3) ypos (PyStr title) [(''weight'', PyStr ''bold''), (''fontsize'', PyInt 24)]]
   \<and> fst (set_title text_width ypos title (Some subtitle) s) = Ok ()
   \<and> drawn (snd (set_title text_width ypos title (Some subtitle) s)) =
       drawn s @
       [Text (margin ! 3) ypos (PyStr title) [(''weight'', PyStr ''bold''), (''fontsize'', PyInt 24)],
        Text (margin ! 3
                + text_width (Text (margin ! 3) ypos (PyStr title) [(''weight'', PyStr ''bold''), (''fontsize'', PyInt 24)])
                - 0.005 * real (length title))
          ypos (PyStr subtitle) [(''fontsize'', PyInt 16)]]
   \<and> added (fig (snd (set_title text_width ypos title sub s))) = added (fig s)"
  by (cases sub) (simp_all add: set_title_def Let_def margin_def)

subsection \<open>The demographics strip\<close>

lemma cumsum_from_nth:
  "j < length ns \<Longrightarrow> cumsum_from acc ns ! j = acc + sum_list (take (Suc j) ns)"
proof (induction ns arbitrary: acc j)
  case Nil
  then show ?case by simp
next
  case (Cons n ns)
  then show ?case by (cases j) simp_all
qed

lemma cumsum_nth: "j < length ns \<Longrightarrow> cumsum ns ! j = sum_list (take (Suc j) ns)"
  by (simp add: cumsum_def cumsum_from_nth)

lemma demographics_loop_step:
  "demographics_loop x y w n cs cw i ((k, v) # rest) s =
     demographics_loop x y w n cs cw (Suc i) rest
       (draw (field_value x y w n cs cw i v) (draw (field_label x y w n cs cw i k) s))"
  by (simp add: Let_def field_label_def field_value_def)

lemma demographics_loop_extends:
  "\<exists>new. drawn (demographics_loop x y w n cs cw i rest s) = drawn s @ new
         \<and> length new = 2 * length rest"
proof (induction rest arbitrary: i s)
  case Nil
  then show ?case by simp
next
  case (Cons kv rest)
  obtain k v where kv: "kv = (k, v)" by (cases kv)
  let ?s' = "draw (field_value x y w n cs cw i v) (draw (field_label x y w n cs cw i k) s)"
  from Cons.IH [of "Suc i" ?s'] obtain new where
    new: "drawn (demographics_loop x y w n cs cw (Suc i) rest ?s') = drawn ?s' @ new"
         "length new = 2 * length rest"
    by blast
  have "drawn (demographics_loop x y w n cs cw i (kv # rest) s)
          = drawn s @ ([field_label x y w n cs cw i k, field_value x y w n cs cw i v] @ new)"
    unfolding kv demographics_loop_step using new(1) by simp
  moreover have "length ([field_label x y w n cs cw i k, field_value x y w n cs cw i v] @ new)
                   = 2 * length (kv # rest)"
    using new(2) by simp
  ultimately show ?case by blast
qed

lemma demographics_loop_length:
  "length (drawn (demographics_loop x y w n cs cw i rest s)) = length (drawn s) + 2 * length rest"
  using demographics_loop_extends [of x y w n cs cw i rest s] by auto

lemma demographics_loop_keeps:
  "m < length (drawn s) \<Longrightarrow> drawn (demographics_loop x y w n cs cw i rest s) ! m = drawn s ! m"
  using demographics_loop_extends [of x y w n cs cw i rest s] by (auto simp: nth_append)

lemma demographics_loop_nth:
  "j < length rest \<Longrightarrow>
     drawn (demographics_loop x y w n cs cw i rest s) ! (length (drawn s) + 2 * j)
       = field_label x y w n cs cw (i + j) (fst (rest ! j))
   \<and> drawn (demographics_loop x y w n cs cw i rest s) ! (length (drawn s) + 2 * j + 1)
       = field_value x y w n cs cw (i + j) (snd (rest ! j))"
proof (induction rest arbitrary: i j s)
  case Nil
  then show ?case by simp
next
  case (Cons kv rest)
  obtain k v where kv: "kv = (k, v)" by (cases kv)
  let ?s' = "draw (field_value x y w n cs cw i v) (draw (field_label x y w n cs cw i k) s)"
  have step: "demographics_loop x y w n cs cw i (kv # rest) s
                = demographics_loop x y w n cs cw (Suc i) rest ?s'"
    unfolding kv by (rule demographics_loop_step)
  have len: "length (drawn ?s') = length (drawn s) + 2" by simp
  show ?case
  proof (cases j)
    case 0
    have "drawn (demographics_loop x y w n cs cw (Suc i) rest ?s') ! (length (drawn s)) = drawn ?s' ! (length (drawn s))"
      by (rule demographics_loop_keeps) simp
    moreover have "drawn (demographics_loop x y w n cs cw (Suc i) rest ?s') ! (length (drawn s) + 1) = drawn ?s' ! (length (drawn s) + 1)"
      by (rule demographics_loop_keeps) simp
    ultimately show ?thesis using 0 kv step by (simp add: nth_append)
  next
    case (Suc j')
    with Cons.prems have "j' < length rest" by simp
    from Cons.IH [OF this, of "Suc i" ?s'] len Suc kv step
    show ?thesis by (simp add: add.commute add.left_commute)
  qed
qed


lemma last_two:
  assumes "length xs = n + 2"
  shows "xs = take n xs @ [xs ! n, xs ! (n + 1)]"
proof -
  have "n < length xs" and "Suc n < length xs" using assms by simp_all
  then have "drop n xs = xs ! n # xs ! Suc n # drop (Suc (Suc n)) xs"
    by (metis Cons_nth_drop_Suc)
  moreover have "drop (Suc (Suc n)) xs = []" using assms by simp
  ultimately have "drop n xs = [xs ! n, xs ! (n + 1)]" by simp
  then show ?thesis by (metis append_take_drop_id)
qed

lemma set_demographics_ok:
  assumes "x + width \<le> 1"
  shows "set_demographics repr [x, y, width, height] flds s =
           (Ok (),
            demographics_loop x y width (length flds) (cumsum (strlens repr flds))
              ((width - 0.02) / real (sum_list (strlens repr flds))) 0 flds
              (draw (HLine (y - height) x (x + width) [(''color'', PyStr ''k''), (''linewidth'', PyInt 1)])
                 (draw (HLine y x (x + width) [(''color'', PyStr ''k''), (''linewidth'', PyInt 1)]) s)))"
  using fadd_le_one [OF assms] by (cases flds) (simp_all add: set_demographics_def strlens_def Let_def)

text \<open>
  C2: in a strip drawn by \<open>set_demographics\<close> into a valid region, every field \<open>i\<close> but
  the last has its label and its value drawn left-aligned at
  \<open>x + 0.01 + (strlen_0 + ... + strlen_{i-1}) * colWidth\<close>, where
  \<open>strlen = max(len(label), len(str(value)))\<close> and \<open>colWidth = (width - 0.02) / sum(strlen)\<close>;
  for field 0 this is \<open>x + 0.01\<close>. The keys of a dict are distinct.
\<close>

theorem demographics_field_starts:
  assumes "x + width \<le> 1" and "distinct (map fst flds)" and "i + 1 < length flds"
  shows "fst (set_demographics repr [x, y, width, height] flds s) = Ok ()
       \<and> drawn (snd (set_demographics repr [x, y, width, height] flds s)) ! (length (drawn s) + 2 + 2 * i)
           = Text (x_start repr x width flds i) (y - 0.015) (PyStr (fst (flds ! i)))
               [(''fontsize'', PyInt 7), (''ha'', PyStr ''left'')]
       \<and> drawn (snd (set_demographics repr [x, y, width, height] flds s)) ! (length (drawn s) + 2 + 2 * i + 1)
           = Text (x_start repr x width flds i) (y - 0.03) (snd (flds ! i))
               [(''fontsize'', PyInt 9), (''ha'', PyStr ''left'')]
       \<and> x_start repr x width flds 0 = x + 0.01"
proof -
  let ?cs = "cumsum (strlens repr flds)"
  let ?cw = "(width - 0.02) / real (sum_list (strlens repr flds))"
  let ?s2 = "draw (HLine (y - height) x (x + width) [(''color'', PyStr ''k''), (''linewidth'', PyInt 1)])
               (draw (HLine y x (x + width) [(''color'', PyStr ''k''), (''linewidth'', PyInt 1)]) s)"
  have i: "i < length flds" using assms(3) by simp
  have len: "length (drawn ?s2) = length (drawn s) + 2" by simp
  have xs: "(if i = 0 then x + 0.01 else x + 0.01 + real (?cs ! (i - 1)) * ?cw) = x_start repr x width flds i"
  proof (cases i)
    case 0
    then show ?thesis by (simp add: x_start_def)
  next
    case (Suc j)
    with i have "j < length (strlens repr flds)" by (simp add: strlens_def)
    then have "?cs ! j = sum_list (take (Suc j) (strlens repr flds))" by (rule cumsum_nth)
    with Suc show ?thesis by (simp add: x_start_def)
  qed
  have notlast: "\<not> (length flds > 1 \<and> i = length flds - 1)" using assms(3) by simp
  from demographics_loop_nth [OF i, of x y width "length flds" ?cs ?cw 0 ?s2]
  have "drawn (demographics_loop x y width (length flds) ?cs ?cw 0 flds ?s2) ! (length (drawn s) + 2 + 2 * i)
          = field_label x y width (length flds) ?cs ?cw i (fst (flds ! i))"
   and "drawn (demographics_loop x y width (length flds) ?cs ?cw 0 flds ?s2) ! (length (drawn s) + 2 + 2 * i + 1)
          = field_value x y width (length flds) ?cs ?cw i (snd (flds ! i))"
    unfolding len by simp_all
  moreover have "field_label x y width (length flds) ?cs ?cw i (fst (flds ! i))
                   = Text (x_start repr x width flds i) (y - 0.015) (PyStr (fst (flds ! i)))
                       [(''fontsize'', PyInt 7), (''ha'', PyStr ''left'')]"
    unfolding field_label_def using notlast xs by simp
  moreover have "field_value x y width (length flds) ?cs ?cw i (snd (flds ! i))
                   = Text (x_start repr x width flds i) (y - 0.03) (snd (flds ! i))
                       [(''fontsize'', PyInt 9), (''ha'', PyStr ''left'')]"
    unfolding field_value_def using notlast xs by simp
  moreover have "x_start repr x width flds 0 = x + 0.01" by (simp add: x_start_def)
  ultimately show ?thesis
    unfolding set_demographics_ok [OF assms(1)] by simp
qed

theorem demographics_field_starts_witness:
  "(0.1::real) + 0.8 \<le> 1
   \<and> distinct (map fst [(''Name'', PyStr ''Ada''), (''Age'', PyInt 36), (''Date'', PyStr ''2024-01-01'')])
   \<and> (1::nat) + 1 < length [(''Name'', PyStr ''Ada''), (''Age'', PyInt 36), (''Date'', PyStr ''2024-01-01'')]
   \<and> fst (set_demographics (\<lambda>v. ''36'') [0.1, 0.9, 0.8, 0.05]
             [(''Name'', PyStr ''Ada''), (''Age'', PyInt 36), (''Date'', PyStr ''2024-01-01'')] blank) = Ok ()
   \<and> drawn (snd (set_demographics (\<lambda>v. ''36'') [0.1, 0.9, 0.8, 0.05]
             [(''Name'', PyStr ''Ada''), (''Age'', PyInt 36), (''Date'', PyStr ''2024-01-01'')] blank)) ! 4
        = Text (0.11 + 4 * (0.78 / 17)) 0.885 (PyStr ''Age'') [(''fontsize'', PyInt 7), (''ha'', PyStr ''left'')]
   \<and> drawn (snd (set_demographics (\<lambda>v. ''36'') [0.1, 0.9, 0.8, 0.05]
             [(''Name'', PyStr ''Ada''), (''Age'', PyInt 36), (''Date'', PyStr ''2024-01-01'')] blank)) ! 5
        = Text (0.11 + 4 * (0.78 / 17)) 0.87 (PyInt 36) [(''fontsize'', PyInt 9), (''ha'', PyStr ''left'')]"
proof -
  have h1: "(0.1::real) + 0.8 \<le> 1" by simp
  have h2: "distinct (map fst [(''Name'', PyStr ''Ada''), (''Age'', PyInt 36), (''Date'', PyStr ''2024-01-01'')])"
    by simp
  have h3: "(1::nat) + 1 < length [(''Name'', PyStr ''Ada''), (''Age'', PyInt 36), (''Date'', PyStr ''2024-01-01'')]"
    by simp
  have d: "length (drawn blank) = 0"
    by (simp add: blank_def init_figure_def new_axes_def)
  have xs: "x_start (\<lambda>v. ''36'') 0.1 0.8
              [(''Name'', PyStr ''Ada''), (''Age'', PyInt 36), (''Date'', PyStr ''2024-01-01'')] 1
            = 0.11 + 4 * (0.78 / 17)"
    by (simp add: x_start_def strlens_def py_str_def)
  show ?thesis
    using h1 h2 h3 demographics_field_starts [OF h1 h2 h3, of "\<lambda>v. ''36''" "0.9" "0.05" blank]
    unfolding d xs by (simp add: eval_nat_numeral)
qed

text \<open>
  C3: with at least two fields, the last two texts drawn by \<open>set_demographics\<close> are the
  last field's label and value, right-aligned at \<open>x + width - 0.01\<close>, whatever the
  field's string length and whatever the other fields are or in which order they come;
  a single field is drawn left-aligned at its computed start \<open>x + 0.01\<close>.
\<close>

theorem demographics_last_field:
  assumes "x + width \<le> 1"
  shows "(others \<noteq> [] \<longrightarrow>
            fst (set_demographics repr [x, y, width, height] (others @ [(k, v)]) s) = Ok ()
          \<and> drawn (snd (set_demographics repr [x, y, width, height] (others @ [(k, v)]) s))
              = take (length (drawn s) + 2 + 2 * length others)
                  (drawn (snd (set_demographics repr [x, y, width, height] (others @ [(k, v)]) s)))
                @ [Text (x + width - 0.01) (y - 0.015) (PyStr k) [(''fontsize'', PyInt 7), (''ha'', PyStr ''right'')],
                   Text (x + width - 0.01) (y - 0.03) v [(''fontsize'', PyInt 9), (''ha'', PyStr ''right'')]])
       \<and> set_demographics repr [x, y, width, height] [(k, v)] s =
           (Ok (),
            draw (Text (x + 0.01) (y - 0.03) v [(''fontsize'', PyInt 9), (''ha'', PyStr ''left'')])
              (draw (Text (x + 0.01) (y - 0.015) (PyStr k) [(''fontsize'', PyInt 7), (''ha'', PyStr ''left'')])
                 (draw (HLine (y - height) x (x + width) [(''color'', PyStr ''k''), (''linewidth'', PyInt 1)])
                    (draw (HLine y x (x + width) [(''color'', PyStr ''k''), (''linewidth'', PyInt 1)]) s))))"
proof (intro conjI impI)
  show "set_demographics repr [x, y, width, height] [(k, v)] s =
           (Ok (),
            draw (Text (x + 0.01) (y - 0.03) v [(''fontsize'', PyInt 9), (''ha'', PyStr ''left'')])
              (draw (Text (x + 0.01) (y - 0.015) (PyStr k) [(''fontsize'', PyInt 7), (''ha'', PyStr ''left'')])
                 (draw (HLine (y - height) x (x + width) [(''color'', PyStr ''k''), (''linewidth'', PyInt 1)])
                    (draw (HLine y x (x + width) [(''color'', PyStr ''k''), (''linewidth'', PyInt 1)]) s))))"
    using fadd_le_one [OF assms] by (simp add: set_demographics_def Let_def)
next
  assume ne: "others \<noteq> []"
  let ?flds = "others @ [(k, v)]"
  let ?cs = "cumsum (strlens repr ?flds)"
  let ?cw = "(width - 0.02) / real (sum_list (strlens repr ?flds))"
  let ?s2 = "draw (HLine (y - height) x (x + width) [(''color'', PyStr ''k''), (''linewidth'', PyInt 1)])
               (draw (HLine y x (x + width) [(''color'', PyStr ''k''), (''linewidth'', PyInt 1)]) s)"
  let ?d = "drawn (demographics_loop x y width (length ?flds) ?cs ?cw 0 ?flds ?s2)"
  let ?n = "length (drawn s) + 2 + 2 * length others"
  show "fst (set_demographics repr [x, y, width, height] ?flds s) = Ok ()"
    unfolding set_demographics_ok [OF assms] by simp
  have j: "length others < length ?flds" by simp
  have len: "length (drawn ?s2) = length (drawn s) + 2" by simp
  have last: "length ?flds > 1 \<and> length others = length ?flds - 1" using ne by (cases others) simp_all
  from demographics_loop_nth [OF j, of x y width "length ?flds" ?cs ?cw 0 ?s2]
  have a: "?d ! ?n = field_label x y width (length ?flds) ?cs ?cw (length others) k"
   and b: "?d ! (?n + 1) = field_value x y width (length ?flds) ?cs ?cw (length others) v"
    unfolding len by simp_all
  have l: "length ?d = ?n + 2"
    by (simp add: demographics_loop_length)
  have "?d = take ?n ?d @ [?d ! ?n, ?d ! (?n + 1)]" using l by (rule last_two)
  moreover have "field_label x y width (length ?flds) ?cs ?cw (length others) k
                  = Text (x + width - 0.01) (y - 0.015) (PyStr k) [(''fontsize'', PyInt 7), (''ha'', PyStr ''right'')]"
    unfolding field_label_def using last by simp
  moreover have "field_value x y width (length ?flds) ?cs ?cw (length others) v
                  = Text (x + width - 0.01) (y - 0.03) v [(''fontsize'', PyInt 9), (''ha'', PyStr ''right'')]"
    unfolding field_value_def using last by simp
  ultimately show "drawn (snd (set_demographics repr [x, y, width, height] ?flds s))
              = take ?n (drawn (snd (set_demographics repr [x, y, width, height] ?flds s)))
                @ [Text (x + width - 0.01) (y - 0.015) (PyStr k) [(''fontsize'', PyInt 7), (''ha'', PyStr ''right'')],
                   Text (x + width - 0.01) (y - 0.03) v [(''fontsize'', PyInt 9), (''ha'', PyStr ''right'')]]"
    unfolding set_demographics_ok [OF assms] using a b by simp
qed


theorem demographics_last_field_witness:
  "(0.1::real) + 0.8 \<le> 1
   \<and> [(''Name'', PyStr ''Ada'')] \<noteq> []
   \<and> fst (set_demographics (\<lambda>v. []) [0.1, 0.9, 0.8, 0.05]
             [(''Name'', PyStr ''Ada''), (''Page'', PyStr ''1'')] blank) = Ok ()
   \<and> drawn (snd (set_demographics (\<lambda>v. []) [0.1, 0.9, 0.8, 0.05]
             [(''Name'', PyStr ''Ada''), (''Page'', PyStr ''1'')] blank))
       = take 4 (drawn (snd (set_demographics (\<lambda>v. []) [0.1, 0.9, 0.8, 0.05]
             [(''Name'', PyStr ''Ada''), (''Page'', PyStr ''1'')] blank)))
         @ [Text 0.89 0.885 (PyStr ''Page'') [(''fontsize'', PyInt 7), (''ha'', PyStr ''right'')],
            Text 0.89 0.87 (PyStr ''1'') [(''fontsize'', PyInt 9), (''ha'', PyStr ''right'')]]
   \<and> drawn (snd (set_demographics (\<lambda>v. []) [0.1, 0.9, 0.8, 0.05] [(''Page'', PyStr ''1'')] blank))
       = [HLine 0.9 0.1 0.9 [(''color'', PyStr ''k''), (''linewidth'', PyInt 1)],
          HLine 0.85 0.1 0.9 [(''color'', PyStr ''k''), (''linewidth'', PyInt 1)],
          Text 0.11 0.885 (PyStr ''Page'') [(''fontsize'', PyInt 7), (''ha'', PyStr ''left'')],
          Text 0.11 0.87 (PyStr ''1'') [(''fontsize'', PyInt 9), (''ha'', PyStr ''left'')]]"
proof -
  have h: "(0.1::real) + 0.8 \<le> 1" by simp
  have d: "drawn blank = []"
    by (simp add: blank_def init_figure_def new_axes_def)
  show ?thesis
    using h demographics_last_field [OF h, of "[(''Name'', PyStr ''Ada'')]" "\<lambda>v. []" "0.9" "0.05" "''Page''" "PyStr ''1''" blank]
    by (simp add: d eval_nat_numeral)
qed

subsection \<open>The table\<close>

lemma header_loop_keeps:
  "set (drawn s) \<subseteq> set (drawn (fst (header_loop x y cw rh col keys (s, cv))))"
proof (induction keys arbitrary: col s cv)
  case Nil
  then show ?case by simp
next
  case (Cons key keys)
  let ?s' = "draw (Text (x + 0.015 + real (col + of_bool rh) * cw) (y - 0.03) (PyStr key)
                [(''weight'', PyStr ''bold''), (''fontsize'', PyInt 8), (''ha'', PyStr ''left'')]) s"
  have "set (drawn s) \<subseteq> set (drawn ?s')" by auto
  also have "\<dots> \<subseteq> set (drawn (fst (header_loop x y cw rh (col + 1) keys (?s', Some col))))"
    by (rule Cons.IH)
  finally show ?case by simp
qed

lemma header_loop_draws:
  "c < length keys \<Longrightarrow>
     Text (x + 0.015 + real (col + c + of_bool rh) * cw) (y - 0.03) (PyStr (keys ! c))
       [(''weight'', PyStr ''bold''), (''fontsize'', PyInt 8), (''ha'', PyStr ''left'')]
     \<in> set (drawn (fst (header_loop x y cw rh col keys (s, cv))))"
proof (induction keys arbitrary: col c s cv)
  case Nil
  then show ?case by simp
next
  case (Cons key keys)
  let ?s' = "draw (Text (x + 0.015 + real (col + of_bool rh) * cw) (y - 0.03) (PyStr key)
                [(''weight'', PyStr ''bold''), (''fontsize'', PyInt 8), (''ha'', PyStr ''left'')]) s"
  show ?case
  proof (cases c)
    case 0
    have "Text (x + 0.015 + real (col + of_bool rh) * cw) (y - 0.03) (PyStr key)
            [(''weight'', PyStr ''bold''), (''fontsize'', PyInt 8), (''ha'', PyStr ''left'')] \<in> set (drawn ?s')"
      by simp
    with header_loop_keeps [of ?s' x y cw rh "col + 1" keys "Some col"] 0 show ?thesis
      by auto
  next
    case (Suc c')
    with Cons.prems have "c' < length keys" by simp
    from Cons.IH [OF this, of "col + 1" ?s' "Some col"] Suc show ?thesis by simp
  qed
qed

lemma table_cell_keeps: "set (drawn s) \<subseteq> set (drawn (table_cell x y cw rh col row key val s))"
  by (auto simp: table_cell_def Let_def)

lemma table_cell_draws:
  "Text (x + 0.015 + real (col + of_bool rh) * cw) (y - 0.06 - real row * 0.025) val
     [(''fontsize'', PyInt 8), (''ha'', PyStr ''left'')]
     \<in> set (drawn (table_cell x y cw rh col row key val s))
   \<and> HLine (y - 0.069 - real row * 0.025) (x + 0.01 + real (col + of_bool rh) * cw)
       (x + real (col + of_bool rh + 1) * cw) light_gray
     \<in> set (drawn (table_cell x y cw rh col row key val s))"
  by (simp add: table_cell_def Let_def)

lemma rows_loop_keeps:
  "set (drawn s) \<subseteq> set (drawn (fst (rows_loop x y cw rh col row vals (s, rv))))"
proof (induction vals arbitrary: row s rv)
  case Nil
  then show ?case by simp
next
  case (Cons kv vals)
  obtain key val where kv: "kv = (key, val)" by (cases kv)
  have "set (drawn s) \<subseteq> set (drawn (table_cell x y cw rh col row key val s))"
    by (rule table_cell_keeps)
  also have "\<dots> \<subseteq> set (drawn (fst (rows_loop x y cw rh col (row + 1) vals
                                        (table_cell x y cw rh col row key val s, Some row))))"
    by (rule Cons.IH)
  finally show ?case unfolding kv by simp
qed

lemma rows_loop_draws:
  "r < length vals \<Longrightarrow>
     Text (x + 0.015 + real (col + of_bool rh) * cw) (y - 0.06 - real (row + r) * 0.025) (snd (vals ! r))
       [(''fontsize'', PyInt 8), (''ha'', PyStr ''left'')]
       \<in> set (drawn (fst (rows_loop x y cw rh col row vals (s, rv))))
     \<and> HLine (y - 0.069 - real (row + r) * 0.025) (x + 0.01 + real (col + of_bool rh) * cw)
         (x + real (col + of_bool rh + 1) * cw) light_gray
       \<in> set (drawn (fst (rows_loop x y cw rh col row vals (s, rv))))"
proof (induction vals arbitrary: row r s rv)
  case Nil
  then show ?case by simp
next
  case (Cons kv vals)
  obtain key val where kv: "kv = (key, val)" by (cases kv)
  let ?s' = "table_cell x y cw rh col row key val s"
  show ?case
  proof (cases r)
    case 0
    from table_cell_draws [of x col rh cw y row val key s]
         rows_loop_keeps [of ?s' x y cw rh col "row + 1" vals "Some row"]
    show ?thesis unfolding kv 0 by auto
  next
    case (Suc r')
    with Cons.prems have "r' < length vals" by simp
    from Cons.IH [OF this, of "row + 1" ?s' "Some row"] show ?thesis
      unfolding kv Suc by simp
  qed
qed

lemma cols_loop_keeps:
  "set (drawn s) \<subseteq> set (drawn (fst (cols_loop x y cw rh col data (s, cv, rv))))"
proof (induction data arbitrary: col s cv rv)
  case Nil
  then show ?case by simp
next
  case (Cons kvs data)
  obtain k vals where kvs: "kvs = (k, vals)" by (cases kvs)
  obtain s' rv' where r: "rows_loop x y cw rh col 0 vals (s, rv) = (s', rv')"
    by (cases "rows_loop x y cw rh col 0 vals (s, rv)")
  have "set (drawn s) \<subseteq> set (drawn s')"
    using rows_loop_keeps [of s x y cw rh col 0 vals rv] r by simp
  also have "\<dots> \<subseteq> set (drawn (fst (cols_loop x y cw rh (col + 1) data (s', Some col, rv'))))"
    by (rule Cons.IH)
  finally show ?case unfolding kvs using r by simp
qed

lemma cols_loop_draws:
  "c < length data \<Longrightarrow> r < length (snd (data ! c)) \<Longrightarrow>
     Text (x + 0.015 + real (col + c + of_bool rh) * cw) (y - 0.06 - real r * 0.025) (snd (snd (data ! c) ! r))
       [(''fontsize'', PyInt 8), (''ha'', PyStr ''left'')]
       \<in> set (drawn (fst (cols_loop x y cw rh col data (s, cv, rv))))
     \<and> HLine (y - 0.069 - real r * 0.025) (x + 0.01 + real (col + c + of_bool rh) * cw)
         (x + real (col + c + of_bool rh + 1) * cw) light_gray
       \<in> set (drawn (fst (cols_loop x y cw rh col data (s, cv, rv))))"
proof (induction data arbitrary: col c s cv rv)
  case Nil
  then show ?case by simp
next
  case (Cons kvs data)
  obtain k vals where kvs: "kvs = (k, vals)" by (cases kvs)
  obtain s' rv' where rl: "rows_loop x y cw rh col 0 vals (s, rv) = (s', rv')"
    by (cases "rows_loop x y cw rh col 0 vals (s, rv)")
  have step: "cols_loop x y cw rh col (kvs # data) (s, cv, rv)
                = cols_loop x y cw rh (col + 1) data (s', Some col, rv')"
    unfolding kvs using rl by simp
  show ?case
  proof (cases c)
    case 0
    with Cons.prems kvs have "r < length vals" by simp
    from rows_loop_draws [OF this, of x col rh cw y 0 s rv] rl
         cols_loop_keeps [of s' x y cw rh "col + 1" data "Some col" rv']
    show ?thesis unfolding step using 0 kvs by auto
  next
    case (Suc c')
    with Cons.prems have "c' < length data" "r < length (snd (data ! c'))" by simp_all
    from Cons.IH [OF this, of "col + 1" s' "Some col" rv'] show ?thesis
      unfolding step Suc by simp
  qed
qed


lemma create_table_drawn:
  assumes "x + width \<le> 1" and "data \<noteq> []"
  shows "set (drawn (fst (cols_loop x y (width / real (length data + of_bool rh)) rh 0 data
                (draw (HLine (y - 0.04) x (x + width) black)
                   (fst (header_loop x y (width / real (length data + of_bool rh)) rh 0 (map fst data)
                           (draw (HLine (y - 0.01) x (x + width) black) s, None))),
                 snd (header_loop x y (width / real (length data + of_bool rh)) rh 0 (map fst data)
                           (draw (HLine (y - 0.01) x (x + width) black) s, None)),
                 None))))
         \<subseteq> set (drawn (snd (create_table [x, y, width, h] data rh s)))"
proof -
  let ?cw = "width / real (length data + of_bool rh)"
  let ?s1 = "draw (HLine (y - 0.01) x (x + width) black) s"
  obtain s2 cv where hl: "header_loop x y ?cw rh 0 (map fst data) (?s1, None) = (s2, cv)"
    by (cases "header_loop x y ?cw rh 0 (map fst data) (?s1, None)")
  let ?s3 = "draw (HLine (y - 0.04) x (x + width) black) s2"
  obtain s4 cv' rv where cl: "cols_loop x y ?cw rh 0 data (?s3, cv, None) = (s4, cv', rv)"
    by (cases "cols_loop x y ?cw rh 0 data (?s3, cv, None)")
  have n: "length data + of_bool rh \<noteq> 0" using assms(2) by simp
  have "set (drawn s4) \<subseteq> set (drawn (snd (create_table [x, y, width, h] data rh s)))"
    using fadd_le_one [OF assms(1)] n hl cl
    by (cases cv'; cases rv) (auto simp: create_table_def Let_def)
  then show ?thesis using hl cl by simp
qed

text \<open>
  C4: for a table of \<open>n\<close> data columns drawn by \<open>create_table\<close> into a valid region, the
  column width is \<open>width / (n + (1 if rowheader else 0))\<close> for every column, whatever the
  cells hold: the header of data column \<open>c\<close> and each of its cells are drawn at
  \<open>x + 0.015 + (c + rowheader) * colWidth\<close>, and each cell's divider ends at
  \<open>x + (c + rowheader + 1) * colWidth\<close>.
\<close>

theorem table_columns:
  assumes "x + width \<le> 1" and "c < length data"
  shows "Text (x + 0.015 + real (c + of_bool rowheader) * (width / real (length data + of_bool rowheader)))
           (y - 0.03) (PyStr (fst (data ! c)))
           [(''weight'', PyStr ''bold''), (''fontsize'', PyInt 8), (''ha'', PyStr ''left'')]
           \<in> set (drawn (snd (create_table [x, y, width, h] data rowheader s)))
       \<and> (\<forall>r. r < length (snd (data ! c)) \<longrightarrow>
            Text (x + 0.015 + real (c + of_bool rowheader) * (width / real (length data + of_bool rowheader)))
              (y - 0.06 - real r * 0.025) (snd (snd (data ! c) ! r))
              [(''fontsize'', PyInt 8), (''ha'', PyStr ''left'')]
              \<in> set (drawn (snd (create_table [x, y, width, h] data rowheader s)))
          \<and> HLine (y - 0.069 - real r * 0.025)
              (x + 0.01 + real (c + of_bool rowheader) * (width / real (length data + of_bool rowheader)))
              (x + real (c + of_bool rowheader + 1) * (width / real (length data + of_bool rowheader)))
              light_gray
              \<in> set (drawn (snd (create_table [x, y, width, h] data rowheader s))))"
proof -
  let ?cw = "width / real (length data + of_bool rowheader)"
  let ?s1 = "draw (HLine (y - 0.01) x (x + width) black) s"
  let ?h = "header_loop x y ?cw rowheader 0 (map fst data) (?s1, None)"
  let ?s3 = "draw (HLine (y - 0.04) x (x + width) black) (fst ?h)"
  let ?s4 = "fst (cols_loop x y ?cw rowheader 0 data (?s3, snd ?h, None))"
  let ?final = "drawn (snd (create_table [x, y, width, h] data rowheader s))"
  have ne: "data \<noteq> []" using assms(2) by auto
  have sub: "set (drawn ?s4) \<subseteq> set ?final"
    using assms(1) ne by (rule create_table_drawn)
  have keep: "set (drawn (fst ?h)) \<subseteq> set (drawn ?s4)"
    using cols_loop_keeps [of ?s3 x y ?cw rowheader 0 data "snd ?h" None] by auto
  have c': "c < length (map fst data)" using assms(2) by simp
  have "Text (x + 0.015 + real (0 + c + of_bool rowheader) * ?cw) (y - 0.03) (PyStr (map fst data ! c))
          [(''weight'', PyStr ''bold''), (''fontsize'', PyInt 8), (''ha'', PyStr ''left'')]
          \<in> set (drawn (fst ?h))"
    using c' by (rule header_loop_draws)
  with keep sub assms(2) have head: "Text (x + 0.015 + real (c + of_bool rowheader) * ?cw) (y - 0.03) (PyStr (fst (data ! c)))
          [(''weight'', PyStr ''bold''), (''fontsize'', PyInt 8), (''ha'', PyStr ''left'')] \<in> set ?final"
    by auto
  have cells: "Text (x + 0.015 + real (c + of_bool rowheader) * ?cw) (y - 0.06 - real r * 0.025)
                 (snd (snd (data ! c) ! r)) [(''fontsize'', PyInt 8), (''ha'', PyStr ''left'')] \<in> set ?final
               \<and> HLine (y - 0.069 - real r * 0.025) (x + 0.01 + real (c + of_bool rowheader) * ?cw)
                   (x + real (c + of_bool rowheader + 1) * ?cw) light_gray \<in> set ?final"
    if "r < length (snd (data ! c))" for r
    using cols_loop_draws [OF assms(2) that, of x 0 rowheader ?cw y ?s3 "snd ?h" None] sub
    by auto
  from head cells show ?thesis by blast
qed

theorem table_columns_witness:
  "(0.1::real) + 0.8 \<le> 1
   \<and> (1::nat) < length [(''A'', [(''r1'', PyInt 1), (''r2'', PyInt 2)]), (''B'', [(''r1'', PyInt 3), (''r2'', PyInt 4)])]
   \<and> Text (0.115 + 2 * (0.8 / 3)) 0.87 (PyStr ''B'')
        [(''weight'', PyStr ''bold''), (''fontsize'', PyInt 8), (''ha'', PyStr ''left'')]
        \<in> set (drawn (snd (create_table [0.1, 0.9, 0.8, 0]
              [(''A'', [(''r1'', PyInt 1), (''r2'', PyInt 2)]), (''B'', [(''r1'', PyInt 3), (''r2'', PyInt 4)])] True blank)))
   \<and> Text (0.115 + 2 * (0.8 / 3)) (0.84 - 0.025) (PyInt 4) [(''fontsize'', PyInt 8), (''ha'', PyStr ''left'')]
        \<in> set (drawn (snd (create_table [0.1, 0.9, 0.8, 0]
              [(''A'', [(''r1'', PyInt 1), (''r2'', PyInt 2)]), (''B'', [(''r1'', PyInt 3), (''r2'', PyInt 4)])] True blank)))"
proof -
  have h1: "(0.1::real) + 0.8 \<le> 1" by simp
  have h2: "(1::nat) < length [(''A'', [(''r1'', PyInt 1), (''r2'', PyInt 2)]), (''B'', [(''r1'', PyInt 3), (''r2'', PyInt 4)])]"
    by simp
  note t = table_columns [OF h1 h2, of True "0.9" 0 blank]
  from t [THEN conjunct1] t [THEN conjunct2, THEN spec, of 1]
  show ?thesis using h1 by simp
qed

text \<open>
  C10, as stated, fails: for an empty table drawn without row header the column count
  is 0, so \<open>create_table\<close> ends with the division's error at \<open>width / ncols\<close>, before any
  line is drawn, and not with an unbound-variable error.
\<close>

theorem empty_table_counterexample:
  "create_table [0.1, 0.9, 0.8, 0] [] False blank = (Raise ZeroDivisionError, blank)
   \<and> fst (create_table [0.1, 0.9, 0.8, 0] [] False blank) \<noteq> Raise (UnboundLocalError ''col'')
   \<and> drawn (snd (create_table [0.1, 0.9, 0.8, 0] [] False blank)) = []"
  by (simp add: create_table_def fadd_le_one_iff blank_def init_figure_def new_axes_def)

text \<open>
  C10, amended: for an empty table and a valid region, \<open>create_table\<close> with row header
  draws the two header separator lines and then ends with the unbound-variable error for
  \<open>col\<close> at the trailing divider, the two lines staying drawn; without row header it ends
  with the division's error before drawing anything.
\<close>

theorem empty_table:
  assumes "x + width \<le> 1"
  shows "create_table [x, y, width, h] [] True s =
           (Raise (UnboundLocalError ''col''),
            draw (HLine (y - 0.04) x (x + width) black) (draw (HLine (y - 0.01) x (x + width) black) s))
       \<and> create_table [x, y, width, h] [] False s = (Raise ZeroDivisionError, s)"
  using fadd_le_one [OF assms] by (simp add: create_table_def)

theorem empty_table_witness:
  "(0.1::real) + 0.8 \<le> 1
   \<and> fst (create_table [0.1, 0.9, 0.8, 0] [] True blank) = Raise (UnboundLocalError ''col'')
   \<and> drawn (snd (create_table [0.1, 0.9, 0.8, 0] [] True blank)) =
        [HLine 0.89 0.1 0.9 black, HLine 0.86 0.1 0.9 black]
   \<and> create_table [0.1, 0.9, 0.8, 0] [] False blank = (Raise ZeroDivisionError, blank)"
proof -
  have h: "(0.1::real) + 0.8 \<le> 1" by simp
  have d: "drawn blank = []" by (simp add: blank_def init_figure_def new_axes_def)
  from empty_table [OF h, of "0.9" 0 blank] show ?thesis using h d by simp
qed

subsection \<open>The footer\<close>

lemma footer_entry_added:
  "footer_entry imread tc data yp pos s = (r, s') \<Longrightarrow> set (added (fig s)) \<subseteq> set (added (fig s'))"
  by (auto simp: footer_entry_def Let_def add_axes_def split: option.splits if_splits sum.splits)

lemma footer_loop_added:
  "footer_loop imread tc data yp ps s = (r, s') \<Longrightarrow> set (added (fig s)) \<subseteq> set (added (fig s'))"
proof (induction ps arbitrary: s)
  case Nil
  then show ?case by simp
next
  case (Cons p ps)
  obtain r1 s1 where e: "footer_entry imread tc data yp p s = (r1, s1)"
    by (cases "footer_entry imread tc data yp p s")
  have a: "set (added (fig s)) \<subseteq> set (added (fig s1))" using e by (rule footer_entry_added)
  show ?case
  proof (cases r1)
    case (Ok u)
    with Cons.prems e have "footer_loop imread tc data yp ps s1 = (r, s')" by simp
    from Cons.IH [OF this] a show ?thesis by blast
  next
    case (Raise err)
    with Cons.prems e have "s' = s1" by simp
    with a show ?thesis by simp
  qed
qed

lemma footer_entry_img_eq:
  assumes "data pos = Some d" and "d ''type'' = Some (PyStr ''img'')"
  shows "footer_entry imread tc data yp pos s =
     (case imread (case d ''src'' of Some p \<Rightarrow> p | None \<Rightarrow> PyNone) of
        Inl e \<Rightarrow> (Raise e, case d ''src'' of Some p \<Rightarrow> s | None \<Rightarrow> s\<lparr>stdout := stdout s @ [''Error: src not found'']\<rparr>)
      | Inr im \<Rightarrow>
          (case (case d ''height'' of Some v \<Rightarrow> num_of v | None \<Rightarrow> Some ((1 - margin ! 0 - yp) / 15)) of
             None \<Rightarrow> (Raise TypeError, case d ''src'' of Some p \<Rightarrow> s | None \<Rightarrow> s\<lparr>stdout := stdout s @ [''Error: src not found'']\<rparr>)
           | Some h \<Rightarrow>
               if rows im = 0
               then (Raise ZeroDivisionError, case d ''src'' of Some p \<Rightarrow> s | None \<Rightarrow> s\<lparr>stdout := stdout s @ [''Error: src not found'']\<rparr>)
               else (case image_xpos pos (real (cols im) * h / real (rows im)) of
                       None \<Rightarrow> (Raise (UnboundLocalError ''xpos''), case d ''src'' of Some p \<Rightarrow> s | None \<Rightarrow> s\<lparr>stdout := stdout s @ [''Error: src not found'']\<rparr>)
                     | Some xp \<Rightarrow>
                         (Ok (), add_axes (image_axes xp yp (real (cols im) * h / real (rows im)) h im)
                                   (case d ''src'' of Some p \<Rightarrow> s | None \<Rightarrow> s\<lparr>stdout := stdout s @ [''Error: src not found'']\<rparr>)))))"
  using assms
  by (simp add: footer_entry_def Let_def num_of_def image_axes_def split: option.splits sum.splits)

lemma footer_entry_img:
  assumes ok: "footer_entry imread tc data yp pos s = (Ok (), s')"
    and d: "data pos = Some d" and ty: "d ''type'' = Some (PyStr ''img'')"
  shows "\<exists>im height xp.
           imread (case d ''src'' of Some p \<Rightarrow> p | None \<Rightarrow> PyNone) = Inr im
         \<and> (case d ''height'' of Some v \<Rightarrow> num_of v | None \<Rightarrow> Some ((1 - margin ! 0 - yp) / 15)) = Some height
         \<and> rows im \<noteq> 0
         \<and> image_xpos pos (height * (real (cols im) / real (rows im))) = Some xp
         \<and> image_axes xp yp (height * (real (cols im) / real (rows im))) height im \<in> set (added (fig s'))"
proof -
  let ?src = "case d ''src'' of Some p \<Rightarrow> p | None \<Rightarrow> PyNone"
  let ?h = "case d ''height'' of Some v \<Rightarrow> num_of v | None \<Rightarrow> Some ((1 - margin ! 0 - yp) / 15)"
  let ?s1 = "case d ''src'' of Some p \<Rightarrow> s | None \<Rightarrow> s\<lparr>stdout := stdout s @ [''Error: src not found'']\<rparr>"
  note eq = ok [unfolded footer_entry_img_eq [where data = data and pos = pos and d = d, OF d ty]]
  obtain im where im: "imread ?src = Inr im"
    using eq by (cases "imread ?src") auto
  obtain h where h: "?h = Some h"
    using eq im by (cases ?h) auto
  have r: "rows im \<noteq> 0"
    using eq im h by (auto split: if_splits)
  have w: "real (cols im) * h / real (rows im) = h * (real (cols im) / real (rows im))" by simp
  obtain xp where xp: "image_xpos pos (real (cols im) * h / real (rows im)) = Some xp"
    using eq im h r by (cases "image_xpos pos (real (cols im) * h / real (rows im))") auto
  have "s' = add_axes (image_axes xp yp (real (cols im) * h / real (rows im)) h im) ?s1"
    using eq im h r xp by simp
  then have "image_axes xp yp (real (cols im) * h / real (rows im)) h im \<in> set (added (fig s'))"
    by (simp add: add_axes_def)
  with im h r xp show ?thesis unfolding w by blast
qed

lemma footer_loop_img:
  assumes "footer_loop imread tc data yp ps s = (Ok (), s')"
    and "pos \<in> set ps" and "data pos = Some d" and "d ''type'' = Some (PyStr ''img'')"
  shows "\<exists>im height xp.
           imread (case d ''src'' of Some p \<Rightarrow> p | None \<Rightarrow> PyNone) = Inr im
         \<and> (case d ''height'' of Some v \<Rightarrow> num_of v | None \<Rightarrow> Some ((1 - margin ! 0 - yp) / 15)) = Some height
         \<and> rows im \<noteq> 0
         \<and> image_xpos pos (height * (real (cols im) / real (rows im))) = Some xp
         \<and> image_axes xp yp (height * (real (cols im) / real (rows im))) height im \<in> set (added (fig s'))"
  using assms(1,2)
proof (induction ps arbitrary: s)
  case Nil
  then show ?case by simp
next
  case (Cons p ps)
  obtain r1 s1 where e: "footer_entry imread tc data yp p s = (r1, s1)"
    by (cases "footer_entry imread tc data yp p s")
  from Cons.prems(1) e have r1: "r1 = Ok ()" and rest: "footer_loop imread tc data yp ps s1 = (Ok (), s')"
    by (cases r1; simp)+
  show ?case
  proof (cases "pos = p")
    case True
    from footer_entry_img [where data = data and pos = pos and d = d, OF e [unfolded r1, folded True] assms(3,4)]
    obtain im height xp where
      *: "imread (case d ''src'' of Some p \<Rightarrow> p | None \<Rightarrow> PyNone) = Inr im"
         "(case d ''height'' of Some v \<Rightarrow> num_of v | None \<Rightarrow> Some ((1 - margin ! 0 - yp) / 15)) = Some height"
         "rows im \<noteq> 0"
         "image_xpos pos (height * (real (cols im) / real (rows im))) = Some xp"
         "image_axes xp yp (height * (real (cols im) / real (rows im))) height im \<in> set (added (fig s1))"
      by blast
    from footer_loop_added [OF rest] *(5)
    have "image_axes xp yp (height * (real (cols im) / real (rows im))) height im \<in> set (added (fig s'))"
      by blast
    with *(1-4) show ?thesis by blast
  next
    case False
    with Cons.prems(2) have "pos \<in> set ps" by simp
    from Cons.IH [OF rest this] show ?thesis .
  qed
qed

text \<open>
  C6: an image entry at \<open>left\<close>, \<open>center\<close> or \<open>right\<close> whose source loads as image \<open>im\<close>
  is drawn by \<open>set_footer\<close> in a new axes of the entry's height, which is
  \<open>(1 - margin[0] - ypos) / 15\<close> when the entry gives none, and of width
  \<open>height * (im.shape[1] / im.shape[0])\<close>, at \<open>ypos - 0.008\<close> and the x-position of its
  slot: on a footer with this entry alone the call returns normally with exactly this
  axes added, and on any footer holding the entry a call that returns normally has
  added this axes.
\<close>

theorem footer_image_width:
  assumes "pos \<in> {''left'', ''center'', ''right''}"
    and "d ''type'' = Some (PyStr ''img'')"
    and "d ''src'' = Some p" and "imread p = Inr im" and "rows im \<noteq> 0"
    and "(case d ''height'' of Some v \<Rightarrow> num_of v | None \<Rightarrow> Some ((1 - margin ! 0 - yp) / 15)) = Some height"
    and "yp = (case ypos of None \<Rightarrow> margin ! 2 | Some v \<Rightarrow> v)"
  shows "\<exists>xp. image_xpos pos (height * (real (cols im) / real (rows im))) = Some xp
       \<and> set_footer imread text_color [pos \<mapsto> d] ypos s =
           (Ok (), add_axes (image_axes xp yp (height * (real (cols im) / real (rows im))) height im) s)
       \<and> (\<forall>data s'. data pos = Some d \<longrightarrow> set_footer imread text_color data ypos s = (Ok (), s') \<longrightarrow>
             image_axes xp yp (height * (real (cols im) / real (rows im))) height im \<in> set (added (fig s')))
       \<and> (d ''height'' = None \<longrightarrow> height = (1 - 0.075 - yp) / 15)"
proof -
  let ?w = "height * (real (cols im) / real (rows im))"
  have w: "real (cols im) * height / real (rows im) = ?w" by simp
  obtain xp where xp: "image_xpos pos ?w = Some xp"
    using assms(1) by (auto simp: image_xpos_def)
  let ?a = "image_axes xp yp ?w height im"
  define data0 where "data0 = [pos \<mapsto> d]"
  have d0: "data0 pos = Some d" by (simp add: data0_def)
  have here: "footer_entry imread text_color data0 yp pos s0 = (Ok (), add_axes ?a s0)" for s0
    using footer_entry_img_eq [where data = data0 and pos = pos and d = d and imread = imread
            and tc = text_color and yp = yp and s = s0, OF d0 assms(2)]
          assms(3-6) xp
    by (simp add: w)
  have other: "footer_entry imread text_color data0 yp q s0 = (Ok (), s0)" if "q \<noteq> pos" for q s0
    using that by (simp add: footer_entry_def data0_def)
  have skip: "footer_loop imread text_color data0 yp ps s0 = (Ok (), s0)" if "pos \<notin> set ps" for ps s0
    using that
  proof (induction ps arbitrary: s0)
    case Nil
    show ?case by simp
  next
    case (Cons q ps)
    then have "q \<noteq> pos" and "pos \<notin> set ps" by auto
    then show ?case using Cons.IH by (simp add: other)
  qed
  have hit: "footer_loop imread text_color data0 yp ps s0 = (Ok (), add_axes ?a s0)"
    if "pos \<in> set ps" and "distinct ps" for ps s0
    using that
  proof (induction ps arbitrary: s0)
    case Nil
    then show ?case by simp
  next
    case (Cons q ps)
    show ?case
    proof (cases "q = pos")
      case True
      with Cons.prems(2) have "pos \<notin> set ps" by simp
      then show ?thesis unfolding True by (simp add: here skip)
    next
      case False
      with Cons.prems have "pos \<in> set ps" and "distinct ps" by auto
      then show ?thesis using False Cons.IH by (simp add: other)
    qed
  qed
  have alone: "set_footer imread text_color [pos \<mapsto> d] ypos s = (Ok (), add_axes ?a s)"
    unfolding set_footer_def Let_def assms(7) [symmetric] data0_def [symmetric]
    using assms(1) by (intro hit) simp_all
  have any: "?a \<in> set (added (fig s'))"
    if "data pos = Some d" and "set_footer imread text_color data ypos s = (Ok (), s')" for data s'
  proof -
    have l: "footer_loop imread text_color data yp [''left'', ''center'', ''right''] s = (Ok (), s')"
      using that(2) unfolding set_footer_def Let_def assms(7) [symmetric] .
    have m: "pos \<in> set [''left'', ''center'', ''right'']" using assms(1) by simp
    from footer_loop_img [where data = data and pos = pos and d = d, OF l m that(1) assms(2)]
    obtain im' h' xp' where
      *: "imread (case d ''src'' of Some p \<Rightarrow> p | None \<Rightarrow> PyNone) = Inr im'"
         "(case d ''height'' of Some v \<Rightarrow> num_of v | None \<Rightarrow> Some ((1 - margin ! 0 - yp) / 15)) = Some h'"
         "image_xpos pos (h' * (real (cols im') / real (rows im'))) = Some xp'"
         "image_axes xp' yp (h' * (real (cols im') / real (rows im'))) h' im' \<in> set (added (fig s'))"
      by blast
    from *(1) assms(3,4) have "im' = im" by simp
    moreover from *(2) assms(6) have "h' = height" by simp
    ultimately show ?thesis using *(3,4) xp by simp
  qed
  have dflt: "height = (1 - 0.075 - yp) / 15" if "d ''height'' = None"
    using that assms(6) by (simp add: margin_def)
  show ?thesis
  proof (intro exI [of _ xp] conjI allI impI)
    show "image_xpos pos ?w = Some xp" by (rule xp)
    show "set_footer imread text_color [pos \<mapsto> d] ypos s = (Ok (), add_axes ?a s)" by (rule alone)
    show "?a \<in> set (added (fig s'))"
      if "data pos = Some d" and "set_footer imread text_color data ypos s = (Ok (), s')" for data s'
      using that by (rule any)
    show "height = (1 - 0.075 - yp) / 15" if "d ''height'' = None"
      using that by (rule dflt)
  qed
qed

theorem footer_image_width_witness:
  "''right'' \<in> {''left'', ''center'', ''right''}
   \<and> logo_entry ''type'' = Some (PyStr ''img'')
   \<and> logo_entry ''src'' = Some (PyStr ''logo.png'')
   \<and> logo_reader (PyStr ''logo.png'') = Inr \<lparr>rows = 100, cols = 300\<rparr>
   \<and> logo_entry ''height'' = None
   \<and> set_footer logo_reader (PyStr ''black'') [''right'' \<mapsto> logo_entry] None blank =
       (Ok (), add_axes (image_axes 0.75 0.05 0.175 (7 / 120) \<lparr>rows = 100, cols = 300\<rparr>) blank)"
proof -
  let ?im = "\<lparr>rows = 100, cols = 300\<rparr> :: image"
  have h1: "''right'' \<in> {''left'', ''center'', ''right''}" by simp
  have h2: "logo_entry ''type'' = Some (PyStr ''img'')" by (simp add: logo_entry_def)
  have h3: "logo_entry ''src'' = Some (PyStr ''logo.png'')" by (simp add: logo_entry_def)
  have h4: "logo_reader (PyStr ''logo.png'') = Inr ?im" by (simp add: logo_reader_def)
  have h5: "rows ?im \<noteq> 0" by simp
  have n: "logo_entry ''height'' = None" by (simp add: logo_entry_def)
  have h6: "(case logo_entry ''height'' of Some v \<Rightarrow> num_of v | None \<Rightarrow> Some ((1 - margin ! 0 - 0.05) / 15)) = Some (7 / 120)"
    by (simp add: n margin_def)
  have h7: "(0.05::real) = (case None of None \<Rightarrow> margin ! 2 | Some v \<Rightarrow> v)" by (simp add: margin_def)
  from footer_image_width [where pos = "''right''" and d = logo_entry and imread = logo_reader
         and ypos = None and yp = "0.05" and height = "7 / 120" and im = ?im,
         OF h1 h2 h3 h4 h5 h6 h7, of "PyStr ''black''" blank]
  obtain xp where
    x: "image_xpos ''right'' (7 / 120 * (real (cols ?im) / real (rows ?im))) = Some xp"
    and r: "set_footer logo_reader (PyStr ''black'') [''right'' \<mapsto> logo_entry] None blank =
              (Ok (), add_axes (image_axes xp 0.05 (7 / 120 * (real (cols ?im) / real (rows ?im))) (7 / 120) ?im) blank)"
    by blast
  from x have "xp = 0.75" by (simp add: image_xpos_def margin_def)
  with r have "set_footer logo_reader (PyStr ''black'') [''right'' \<mapsto> logo_entry] None blank =
       (Ok (), add_axes (image_axes 0.75 0.05 0.175 (7 / 120) ?im) blank)"
    by simp
  with h1 h2 h3 h4 n show ?thesis by blast
qed

text \<open>
  C7: the code at an image entry without \<open>src\<close>. \<open>set_footer\<close> prints
  \<open>Error: src not found\<close>, hands \<open>None\<close> to the image loader and goes on with whatever
  the loader returns: it raises no error of its own, and where the loader returns an
  image the call succeeds with that image drawn.
\<close>

theorem missing_src_proceeds:
  "set_footer imread text_color [''left'' \<mapsto> [''type'' \<mapsto> PyStr ''img'']] None blank =
     (case imread PyNone of
        Inl e \<Rightarrow> (Raise e, blank\<lparr>stdout := [''Error: src not found'']\<rparr>)
      | Inr im \<Rightarrow>
          if rows im = 0 then (Raise ZeroDivisionError, blank\<lparr>stdout := [''Error: src not found'']\<rparr>)
          else (Ok (),
                add_axes (image_axes 0.075 0.05 (real (cols im) * ((1 - 0.075 - 0.05) / 15) / real (rows im))
                            ((1 - 0.075 - 0.05) / 15) im)
                  (blank\<lparr>stdout := [''Error: src not found'']\<rparr>)))"
  by (simp add: set_footer_def footer_entry_def Let_def num_of_def image_xpos_def image_axes_def
        margin_def blank_def split: sum.splits)

text \<open>
  C8, as stated, fails: an entry of type \<open>table\<close> makes \<open>set_footer\<close> return normally with
  nothing drawn.
\<close>

theorem unknown_type_counterexample:
  "set_footer logo_reader (PyStr ''black'') [''left'' \<mapsto> [''type'' \<mapsto> PyStr ''table'']] None blank = (Ok (), blank)"
  by (simp add: set_footer_def footer_entry_def)

lemma footer_entry_skip:
  assumes "data pos = Some d" and "d ''type'' = Some t" and "t \<noteq> PyStr ''text''" and "t \<noteq> PyStr ''img''"
  shows "footer_entry imread tc data yp p s = footer_entry imread tc (data(pos := None)) yp p s"
  using assms by (cases "p = pos") (simp_all add: footer_entry_def)

lemma footer_loop_skip:
  assumes "data pos = Some d" and "d ''type'' = Some t" and "t \<noteq> PyStr ''text''" and "t \<noteq> PyStr ''img''"
  shows "footer_loop imread tc data yp ps s = footer_loop imread tc (data(pos := None)) yp ps s"
proof (induction ps arbitrary: s)
  case Nil
  show ?case by simp
next
  case (Cons p ps)
  have e: "footer_entry imread tc data yp p s = footer_entry imread tc (data(pos := None)) yp p s"
    using assms by (rule footer_entry_skip)
  show ?case by (simp only: footer_loop.simps e Cons.IH)
qed

text \<open>
  C8, amended: an entry whose \<open>type\<close> is neither \<open>text\<close> nor \<open>img\<close> is skipped:
  \<open>set_footer\<close> does exactly what it does on the footer without that entry, and on a
  footer holding only that entry it returns normally and leaves the state as it was.
\<close>

theorem unknown_type_skipped:
  assumes "data pos = Some d" and "d ''type'' = Some t" and "t \<noteq> PyStr ''text''" and "t \<noteq> PyStr ''img''"
  shows "set_footer imread text_color data ypos s = set_footer imread text_color (data(pos := None)) ypos s
       \<and> set_footer imread text_color [pos \<mapsto> d] ypos s = (Ok (), s)"
proof -
  have a: "footer_loop imread text_color data yp ps s = footer_loop imread text_color (data(pos := None)) yp ps s"
    for yp ps
    using assms by (rule footer_loop_skip)
  have b: "footer_entry imread text_color [pos \<mapsto> d] yp p s = (Ok (), s)" for yp p
    using assms(2-4) by (simp add: footer_entry_def)
  have "set_footer imread text_color data ypos s = set_footer imread text_color (data(pos := None)) ypos s"
    unfolding set_footer_def Let_def by (simp only: a)
  moreover have "set_footer imread text_color [pos \<mapsto> d] ypos s = (Ok (), s)"
    by (simp add: set_footer_def b)
  ultimately show ?thesis by simp
qed

theorem unknown_type_skipped_witness:
  "[''left'' \<mapsto> [''type'' \<mapsto> PyStr ''table''], ''right'' \<mapsto> [''type'' \<mapsto> PyStr ''text'', ''content'' \<mapsto> PyStr ''p. 1'']] ''left''
     = Some [''type'' \<mapsto> PyStr ''table'']
   \<and> [''type'' \<mapsto> PyStr ''table''] ''type'' = Some (PyStr ''table'')
   \<and> PyStr ''table'' \<noteq> PyStr ''text'' \<and> PyStr ''table'' \<noteq> PyStr ''img''
   \<and> set_footer logo_reader (PyStr ''black'')
        [''left'' \<mapsto> [''type'' \<mapsto> PyStr ''table''], ''right'' \<mapsto> [''type'' \<mapsto> PyStr ''text'', ''content'' \<mapsto> PyStr ''p. 1'']]
        None blank
      = set_footer logo_reader (PyStr ''black'')
        ([''left'' \<mapsto> [''type'' \<mapsto> PyStr ''table''], ''right'' \<mapsto> [''type'' \<mapsto> PyStr ''text'', ''content'' \<mapsto> PyStr ''p. 1'']](''left'' := None))
        None blank
   \<and> set_footer logo_reader (PyStr ''black'') [''left'' \<mapsto> [''type'' \<mapsto> PyStr ''table'']] None blank = (Ok (), blank)"
proof -
  let ?data = "[''left'' \<mapsto> [''type'' \<mapsto> PyStr ''table''], ''right'' \<mapsto> [''type'' \<mapsto> PyStr ''text'', ''content'' \<mapsto> PyStr ''p. 1'']]"
  have h1: "?data ''left'' = Some [''type'' \<mapsto> PyStr ''table'']" by simp
  have h2: "[''type'' \<mapsto> PyStr ''table''] ''type'' = Some (PyStr ''table'')" by simp
  have h3: "PyStr ''table'' \<noteq> PyStr ''text''" by simp
  have h4: "PyStr ''table'' \<noteq> PyStr ''img''" by simp
  from unknown_type_skipped [where data = ?data and pos = "''left''" and d = "[''type'' \<mapsto> PyStr ''table'']",
         OF h1 h2 h3 h4, of logo_reader "PyStr ''black''" None blank]
  show ?thesis using h1 h2 h3 h4 by blast
qed

subsection \<open>Several instances\<close>

lemma call_frame:
  "fig_ref a \<noteq> fig_ref b \<Longrightarrow> heap (snd (call m b w)) (fig_ref a) = heap w (fig_ref a)"
  by (simp add: call_def split: prod.splits)

lemma init_fresh:
  "fig_ref (fst (init (snd (init w)))) \<noteq> fig_ref (fst (init w))"
  by (simp add: init_def)

lemma save_current:
  "registry w = rs @ [Owned n] \<Longrightarrow> files (snd (save self filename w)) filename = Some (Page (heap w n))"
  by (cases rs) (simp_all add: save_def savefig_def close_def)

text \<open>
  C9: the code on two instances. \<open>a\<close> is created first, then \<open>b\<close>; a title is drawn on
  \<open>a\<close>, which leaves \<open>b\<close>'s figure blank; \<open>a.save('a.pdf')\<close> then writes pyplot's current
  figure, which is \<open>b\<close>'s blank page and not \<open>a\<close>'s, and closes \<open>a\<close>'s figure.
\<close>

theorem save_exports_current_figure:
  "(case init world0 of (a, w1) \<Rightarrow>
    case init w1 of (b, w2) \<Rightarrow>
    case call (set_title (\<lambda>t. 0.2) 0.9 ''Report A'' None) a w2 of (r, w3) \<Rightarrow>
    case save a ''a.pdf'' w3 of (p, w4) \<Rightarrow>
      p = Ok ''a.pdf''
      \<and> artists (ax (heap w3 (fig_ref a))) =
          [Text 0.075 0.9 (PyStr ''Report A'') [(''weight'', PyStr ''bold''), (''fontsize'', PyInt 24)]]
      \<and> heap w3 (fig_ref b) = init_figure
      \<and> files w4 ''a.pdf'' = Some (Page (heap w3 (fig_ref b)))
      \<and> files w4 ''a.pdf'' \<noteq> Some (Page (heap w3 (fig_ref a)))
      \<and> registry w4 = [Owned (fig_ref b)])"
  by (simp add: init_def world0_def call_def set_title_def draw_def save_def savefig_def close_def
        init_figure_def new_axes_def margin_def Let_def)

end
